theory Spec2Isabelle
  imports Main
begin

section \<open>Data model of \<open>static_vector<T, Capacity>\<close>\<close>

text \<open>
  The result codes of \<^verbatim>\<open>enum class StaticVectorErrorCode\<close>, in the order of the header.
\<close>

datatype StaticVectorErrorCode =
  NoError | OutOfSpace | OutOfRange | Empty | CannotDefaultConstruct

text \<open>
  An element of type \<open>T\<close> that has been constructed in a slot is modelled as a pair: the
  identity of the object (a number drawn from a counter at construction, so that two
  objects are never confused even when their values agree) and its value. A slot of the
  byte array \<open>storage_\<close> either holds such an object or holds none (\<open>None\<close>: raw bytes,
  or an object whose destructor has run).

  The members \<open>storage_\<close> and \<open>size_\<close> are the fields \<open>m_storage\<close> and \<open>m_size\<close> (a
  name cannot end in an underscore here). \<open>size_\<close> is a \<open>std::size_t\<close>. It is only
  incremented under the guard \<open>size_ < Capacity\<close> and only decremented under the guard
  \<open>size_ \<noteq> 0\<close>, so it never wraps and is modelled as a natural number.
\<close>

type_synonym 'a obj = "nat \<times> 'a"

record 'a static_vector =
  m_storage :: "'a obj option list"
  m_size :: nat

text \<open>
  A \<open>T*\<close> into a container is the address of the container and a slot index.
  \<open>nullptr\<close> is \<open>None\<close> of \<open>ptr option\<close>.
\<close>

type_synonym ptr = "nat \<times> nat"

text \<open>
  The lifetime events of elements, recorded in program order: every constructor call of
  \<open>T\<close> made by the container (placement new) and every destructor call (\<open>~T()\<close>).
\<close>

datatype event = Constructed nat | Destroyed nat

text \<open>
  The program state: the container objects by address, the counter of object identities,
  the event trace, and a flag that is raised when the code does something C++ leaves
  undefined (running a destructor on, or reading, a slot that holds no object; touching a
  slot outside the array).
\<close>

record 'a world =
  mem :: "nat \<Rightarrow> 'a static_vector"
  next_oid :: nat
  trace :: "event list"
  ub :: bool

section \<open>Slots, placement new and destructor calls\<close>

definition data :: "nat \<Rightarrow> ptr" where
  "data this = (this, 0)"

definition begin_sv :: "nat \<Rightarrow> ptr" where
  "begin_sv this = data this"

definition ptr_add :: "ptr \<Rightarrow> nat \<Rightarrow> ptr" where
  "ptr_add p n = (fst p, snd p + n)"

definition end_sv :: "'a world \<Rightarrow> nat \<Rightarrow> ptr" where
  "end_sv w this = ptr_add (data this) (m_size (mem w this))"

definition slot :: "'a world \<Rightarrow> ptr \<Rightarrow> 'a obj option" where
  "slot w p =
     (let st = m_storage (mem w (fst p))
      in if snd p < length st then st ! snd p else None)"

definition put_slot :: "ptr \<Rightarrow> 'a obj option \<Rightarrow> 'a world \<Rightarrow> 'a world" where
  "put_slot p x w =
     w\<lparr>mem := (mem w)(fst p := (mem w (fst p))
          \<lparr>m_storage := (m_storage (mem w (fst p)))[snd p := x]\<rparr>)\<rparr>"

definition set_size :: "nat \<Rightarrow> nat \<Rightarrow> 'a world \<Rightarrow> 'a world" where
  "set_size this n w = w\<lparr>mem := (mem w)(this := (mem w this)\<lparr>m_size := n\<rparr>)\<rparr>"

text \<open>\<^verbatim>\<open>::new (static_cast<void*>(p)) T(v)\<close>: a new object with a fresh identity.\<close>

definition placement_new :: "ptr \<Rightarrow> 'a \<Rightarrow> 'a world \<Rightarrow> 'a world" where
  "placement_new p v w =
     (if snd p < length (m_storage (mem w (fst p)))
      then (put_slot p (Some (next_oid w, v)) w)
             \<lparr>next_oid := Suc (next_oid w),
              trace := trace w @ [Constructed (next_oid w)]\<rparr>
      else w\<lparr>ub := True\<rparr>)"

text \<open>\<^verbatim>\<open>p->~T()\<close>: the destructor of the object in the slot runs; the slot holds no object
  afterwards.\<close>

definition destroy_at :: "ptr \<Rightarrow> 'a world \<Rightarrow> 'a world" where
  "destroy_at p w =
     (case slot w p of
        Some (oid, v) \<Rightarrow> (put_slot p None w)\<lparr>trace := trace w @ [Destroyed oid]\<rparr>
      | None \<Rightarrow> w\<lparr>ub := True\<rparr>)"

text \<open>\<^verbatim>\<open>::new (d) T(*s)\<close> with the copy constructor of \<open>T\<close>: the new object has the value of
  the source, which is left as it is.\<close>

definition copy_construct :: "ptr \<Rightarrow> ptr \<Rightarrow> 'a world \<Rightarrow> 'a world" where
  "copy_construct d s w =
     (case slot w s of
        Some (oid, v) \<Rightarrow> placement_new d v w
      | None \<Rightarrow> w\<lparr>ub := True\<rparr>)"

text \<open>\<^verbatim>\<open>::new (d) T(std::move(*s))\<close> with the move constructor of \<open>T\<close>: the new object has
  the value of the source; the source object stays alive, with the value \<open>mf v\<close> that the
  move constructor of \<open>T\<close> leaves behind (\<open>mf\<close> is a parameter: the identity for \<open>int\<close>,
  the empty string for \<open>std::string\<close>).\<close>

definition move_construct :: "('a \<Rightarrow> 'a) \<Rightarrow> ptr \<Rightarrow> ptr \<Rightarrow> 'a world \<Rightarrow> 'a world" where
  "move_construct mf d s w =
     (case slot w s of
        Some (oid, v) \<Rightarrow> placement_new d v (put_slot s (Some (oid, mf v)) w)
      | None \<Rightarrow> w\<lparr>ub := True\<rparr>)"

text \<open>\<^verbatim>\<open>std::uninitialized_copy_n(first, n, d_first)\<close> and
  \<^verbatim>\<open>std::uninitialized_move_n(first, n, d_first)\<close> of the standard library: \<open>n\<close> objects
  are constructed at \<open>d_first\<close>, \<open>d_first + 1\<close>, ... from \<open>first\<close>, \<open>first + 1\<close>, ...\<close>

fun uninitialized_copy_n :: "ptr \<Rightarrow> nat \<Rightarrow> ptr \<Rightarrow> 'a world \<Rightarrow> 'a world" where
  "uninitialized_copy_n first 0 d_first w = w"
| "uninitialized_copy_n first (Suc n) d_first w =
     uninitialized_copy_n (ptr_add first 1) n (ptr_add d_first 1)
       (copy_construct d_first first w)"

fun uninitialized_move_n ::
  "('a \<Rightarrow> 'a) \<Rightarrow> ptr \<Rightarrow> nat \<Rightarrow> ptr \<Rightarrow> 'a world \<Rightarrow> 'a world" where
  "uninitialized_move_n mf first 0 d_first w = w"
| "uninitialized_move_n mf first (Suc n) d_first w =
     uninitialized_move_n mf (ptr_add first 1) n (ptr_add d_first 1)
       (move_construct mf d_first first w)"

section \<open>The member functions\<close>

text \<open>Queries: \<open>size()\<close>, \<open>capacity()\<close>, \<open>empty()\<close>. \<open>Capacity\<close> is the template
  parameter; it is a parameter of every function of the model that mentions it.\<close>

definition size_sv :: "'a world \<Rightarrow> nat \<Rightarrow> nat" where
  "size_sv w this = m_size (mem w this)"

definition capacity :: "nat \<Rightarrow> 'a world \<Rightarrow> nat \<Rightarrow> nat" where
  "capacity Capacity w this = Capacity"

definition empty_sv :: "'a world \<Rightarrow> nat \<Rightarrow> bool" where
  "empty_sv w this = (m_size (mem w this) = 0)"

text \<open>\<open>clear()\<close>: the loop \<^verbatim>\<open>for (i = 0; i < size_; ++i) data()[i].~T();\<close>, then
  \<open>size_ = 0\<close>.\<close>

function clear_loop :: "nat \<Rightarrow> nat \<Rightarrow> 'a world \<Rightarrow> 'a world" where
  "clear_loop this i w =
     (if i < m_size (mem w this)
      then clear_loop this (Suc i) (destroy_at (ptr_add (data this) i) w)
      else w)"
  by pat_completeness auto

termination
  by (relation "measure (\<lambda>(this, i, w). m_size (mem w this) - i)")
     (auto simp: destroy_at_def put_slot_def split: option.splits)

declare clear_loop.simps [simp del]

definition clear :: "nat \<Rightarrow> 'a world \<Rightarrow> 'a world" where
  "clear this w = set_size this 0 (clear_loop this 0 w)"

text \<open>The default constructor: \<open>size_(0)\<close>, the storage uninitialised.\<close>

definition raw :: "nat \<Rightarrow> nat \<Rightarrow> 'a static_vector" where
  "raw Capacity n = \<lparr>m_storage = replicate Capacity None, m_size = n\<rparr>"

definition default_ctor :: "nat \<Rightarrow> nat \<Rightarrow> 'a world \<Rightarrow> 'a world" where
  "default_ctor Capacity this w = w\<lparr>mem := (mem w)(this := raw Capacity 0)\<rparr>"

text \<open>The copy constructor: \<open>size_(other.size_)\<close>, then
  \<^verbatim>\<open>std::uninitialized_copy_n(other.begin(), size_, data())\<close>.\<close>

definition copy_ctor :: "nat \<Rightarrow> nat \<Rightarrow> nat \<Rightarrow> 'a world \<Rightarrow> 'a world" where
  "copy_ctor Capacity this other w =
     (let w1 = w\<lparr>mem := (mem w)(this := raw Capacity (m_size (mem w other)))\<rparr>
      in uninitialized_copy_n (begin_sv other) (m_size (mem w1 this)) (data this) w1)"

text \<open>The move constructor: \<open>size_(other.size_)\<close>, then
  \<^verbatim>\<open>std::uninitialized_move_n(other.begin(), size_, data()); other.m_size = 0;\<close>.\<close>

definition move_ctor :: "('a \<Rightarrow> 'a) \<Rightarrow> nat \<Rightarrow> nat \<Rightarrow> nat \<Rightarrow> 'a world \<Rightarrow> 'a world" where
  "move_ctor mf Capacity this other w =
     (let w1 = w\<lparr>mem := (mem w)(this := raw Capacity (m_size (mem w other)))\<rparr>;
          w2 = uninitialized_move_n mf (begin_sv other) (m_size (mem w1 this)) (data this) w1
      in set_size other 0 w2)"

text \<open>Copy assignment: guarded by \<^verbatim>\<open>this != &other\<close>.\<close>

definition copy_assign :: "nat \<Rightarrow> nat \<Rightarrow> 'a world \<Rightarrow> 'a world" where
  "copy_assign this other w =
     (if this \<noteq> other then
        (let w1 = clear this w;
             w2 = set_size this (m_size (mem w1 other)) w1
         in uninitialized_copy_n (begin_sv other) (m_size (mem w2 this)) (data this) w2)
      else w)"

text \<open>Move assignment: guarded by \<^verbatim>\<open>this != &other\<close>; the source is emptied with
  \<open>other.clear()\<close>.\<close>

definition move_assign :: "('a \<Rightarrow> 'a) \<Rightarrow> nat \<Rightarrow> nat \<Rightarrow> 'a world \<Rightarrow> 'a world" where
  "move_assign mf this other w =
     (if this \<noteq> other then
        (let w1 = clear this w;
             w2 = set_size this (m_size (mem w1 other)) w1;
             w3 = uninitialized_move_n mf (begin_sv other) (m_size (mem w2 this)) (data this) w2
         in clear other w3)
      else w)"

text \<open>The destructor \<^verbatim>\<open>~static_vector() { clear(); }\<close>.\<close>

definition dtor :: "nat \<Rightarrow> 'a world \<Rightarrow> 'a world" where
  "dtor this w = clear this w"

text \<open>\<open>emplace_back(args...)\<close>, \<open>push_back(const T&)\<close> and \<open>push_back(T&&)\<close>. The three
  bodies differ only in the constructor of \<open>T\<close> that placement new calls; \<open>v\<close> is the value
  of the object that constructor builds.\<close>

definition emplace_back ::
  "nat \<Rightarrow> nat \<Rightarrow> 'a \<Rightarrow> 'a world \<Rightarrow> StaticVectorErrorCode \<times> 'a world" where
  "emplace_back Capacity this v w =
     (if m_size (mem w this) \<ge> Capacity then (OutOfSpace, w)
      else (let w1 = placement_new (ptr_add (data this) (m_size (mem w this))) v w
            in (NoError, set_size this (Suc (m_size (mem w1 this))) w1)))"

definition push_back ::
  "nat \<Rightarrow> nat \<Rightarrow> 'a \<Rightarrow> 'a world \<Rightarrow> StaticVectorErrorCode \<times> 'a world" where
  "push_back Capacity this v w =
     (if m_size (mem w this) \<ge> Capacity then (OutOfSpace, w)
      else (let w1 = placement_new (ptr_add (data this) (m_size (mem w this))) v w
            in (NoError, set_size this (Suc (m_size (mem w1 this))) w1)))"

definition push_back_move ::
  "nat \<Rightarrow> nat \<Rightarrow> 'a \<Rightarrow> 'a world \<Rightarrow> StaticVectorErrorCode \<times> 'a world" where
  "push_back_move Capacity this v w =
     (if m_size (mem w this) \<ge> Capacity then (OutOfSpace, w)
      else (let w1 = placement_new (ptr_add (data this) (m_size (mem w this))) v w
            in (NoError, set_size this (Suc (m_size (mem w1 this))) w1)))"

text \<open>\<open>pop_back()\<close>: \<^verbatim>\<open>--size_; data()[size_].~T();\<close> unless the container is empty.\<close>

definition pop_back :: "nat \<Rightarrow> 'a world \<Rightarrow> StaticVectorErrorCode \<times> 'a world" where
  "pop_back this w =
     (if m_size (mem w this) = 0 then (Empty, w)
      else (let w1 = set_size this (m_size (mem w this) - 1) w
            in (NoError, destroy_at (ptr_add (data this) (m_size (mem w1 this))) w1)))"

text \<open>Checked access. The functions read the state and return a pointer or \<open>nullptr\<close>;
  they have no state to return because their bodies assign nothing.\<close>

definition at_if :: "'a world \<Rightarrow> nat \<Rightarrow> nat \<Rightarrow> ptr option" where
  "at_if w this pos =
     (if pos < m_size (mem w this) then Some (ptr_add (data this) pos) else None)"

definition front_if :: "'a world \<Rightarrow> nat \<Rightarrow> ptr option" where
  "front_if w this =
     (if m_size (mem w this) > 0 then Some (ptr_add (data this) 0) else None)"

definition back_if :: "'a world \<Rightarrow> nat \<Rightarrow> ptr option" where
  "back_if w this =
     (if m_size (mem w this) > 0
      then Some (ptr_add (data this) (m_size (mem w this) - 1)) else None)"

text \<open>Unchecked access \<open>operator[]\<close>: a reference to \<open>data()[pos]\<close>, and the assignment
  through such a reference (the assignment operator of \<open>T\<close> keeps the object and changes
  its value).\<close>

definition subscript :: "nat \<Rightarrow> nat \<Rightarrow> ptr" where
  "subscript this pos = ptr_add (data this) pos"

definition assign_through :: "ptr \<Rightarrow> 'a \<Rightarrow> 'a world \<Rightarrow> 'a world" where
  "assign_through p v w =
     (case slot w p of
        Some (oid, old) \<Rightarrow> put_slot p (Some (oid, v)) w
      | None \<Rightarrow> w\<lparr>ub := True\<rparr>)"

section \<open>The representation invariant\<close>

text \<open>The array has \<open>Capacity\<close> slots, \<open>size_\<close> is at most \<open>Capacity\<close>, and the slots
  \<open>[0, size_)\<close> hold objects.\<close>

definition wf :: "nat \<Rightarrow> 'a static_vector \<Rightarrow> bool" where
  "wf Capacity sv \<longleftrightarrow>
     length (m_storage sv) = Capacity \<and> m_size sv \<le> Capacity \<and>
     list_all (\<lambda>x. x \<noteq> None) (take (m_size sv) (m_storage sv))"

section \<open>Auxiliary functions of the statements\<close>

subsection \<open>Views of a container\<close>

text \<open>The slots \<open>[0, size_)\<close> of a container, and the identities of the objects in a list
  of slots, in slot order.\<close>

definition elems :: "'a static_vector \<Rightarrow> 'a obj option list" where
  "elems sv = take (m_size sv) (m_storage sv)"

fun oids :: "'a obj option list \<Rightarrow> nat list" where
  "oids [] = []"
| "oids (None # xs) = oids xs"
| "oids (Some (oid, v) # xs) = oid # oids xs"

text \<open>The array after the destructor calls of the loop of \<open>clear\<close> on the slots
  \<open>[i, n)\<close>.\<close>

definition blank :: "nat \<Rightarrow> nat \<Rightarrow> 'b option list \<Rightarrow> 'b option list" where
  "blank i n st = map (\<lambda>j. if i \<le> j \<and> j < n then None else st ! j) [0..<length st]"

text \<open>A slot's object under a new identity \<open>b\<close> (what a copy or a move constructs from
  it), and a slot's object after it has been moved from. \<open>fill\<close> is the destination array
  after \<open>n\<close> constructions from the source slots \<open>i, i + 1, ...\<close> into the slots
  \<open>j, j + 1, ...\<close>, the new objects numbered from \<open>b\<close>; \<open>spent\<close> is the source array after
  \<open>n\<close> of its objects from slot \<open>i\<close> on have been moved from.\<close>

definition reid :: "nat \<Rightarrow> 'a obj option \<Rightarrow> 'a obj option" where
  "reid b x = map_option (\<lambda>(oid, v). (b, v)) x"

definition residue :: "('a \<Rightarrow> 'a) \<Rightarrow> 'a obj option \<Rightarrow> 'a obj option" where
  "residue mf x = map_option (\<lambda>(oid, v). (oid, mf v)) x"

definition fill ::
  "nat \<Rightarrow> nat \<Rightarrow> nat \<Rightarrow> nat \<Rightarrow> 'a obj option list \<Rightarrow> 'a obj option list \<Rightarrow> 'a obj option list" where
  "fill i j n b sts std =
     map (\<lambda>k. if j \<le> k \<and> k < j + n
              then reid (b + (k - j)) (sts ! (i + (k - j)))
              else std ! k) [0..<length std]"

definition spent :: "('a \<Rightarrow> 'a) \<Rightarrow> nat \<Rightarrow> nat \<Rightarrow> 'a obj option list \<Rightarrow> 'a obj option list" where
  "spent mf i n sts =
     map (\<lambda>k. if i \<le> k \<and> k < i + n
              then residue mf (sts ! k)
              else sts ! k) [0..<length sts]"

subsection \<open>Insertions, mutations and programs\<close>

text \<open>The three insertion members behind one type of requests, and a run of insertions
  that collects the result codes.\<close>

datatype 'a insertion = Emplace 'a | PushCopy 'a | PushMove 'a

fun inserted_value :: "'a insertion \<Rightarrow> 'a" where
  "inserted_value (Emplace v) = v"
| "inserted_value (PushCopy v) = v"
| "inserted_value (PushMove v) = v"

fun insert_back ::
  "nat \<Rightarrow> nat \<Rightarrow> 'a insertion \<Rightarrow> 'a world \<Rightarrow> StaticVectorErrorCode \<times> 'a world" where
  "insert_back Capacity this (Emplace v) w = emplace_back Capacity this v w"
| "insert_back Capacity this (PushCopy v) w = push_back Capacity this v w"
| "insert_back Capacity this (PushMove v) w = push_back_move Capacity this v w"

fun push_all ::
  "nat \<Rightarrow> nat \<Rightarrow> 'a insertion list \<Rightarrow> 'a world \<Rightarrow> StaticVectorErrorCode list \<times> 'a world" where
  "push_all Capacity this [] w = ([], w)"
| "push_all Capacity this (x # xs) w =
     (let (c, w1) = insert_back Capacity this x w;
          (cs, w2) = push_all Capacity this xs w1
      in (c # cs, w2))"

text \<open>What a caller can do to one container through its modifying members: an
  insertion, \<open>pop_back()\<close>, \<open>clear()\<close>, and an assignment \<open>v[pos] = x\<close> through the reference
  that \<open>operator[]\<close> returns. The result codes are kept.\<close>

datatype 'a mutation = Insert "'a insertion" | PopBack | Clear | Write nat 'a

fun mutate ::
  "nat \<Rightarrow> nat \<Rightarrow> 'a mutation \<Rightarrow> 'a world \<Rightarrow> StaticVectorErrorCode option \<times> 'a world" where
  "mutate Capacity this (Insert x) w =
     (let (c, w1) = insert_back Capacity this x w in (Some c, w1))"
| "mutate Capacity this PopBack w = (let (c, w1) = pop_back this w in (Some c, w1))"
| "mutate Capacity this Clear w = (None, clear this w)"
| "mutate Capacity this (Write pos x) w = (None, assign_through (subscript this pos) x w)"

fun mutate_all ::
  "nat \<Rightarrow> nat \<Rightarrow> 'a mutation list \<Rightarrow> 'a world \<Rightarrow> StaticVectorErrorCode option list \<times> 'a world" where
  "mutate_all Capacity this [] w = ([], w)"
| "mutate_all Capacity this (m # ms) w =
     (let (c, w1) = mutate Capacity this m w;
          (cs, w2) = mutate_all Capacity this ms w1
      in (c # cs, w2))"

text \<open>Two states look the same at container \<open>c\<close> when \<open>c\<close> satisfies the invariant in
  both and has the same size and the same elements in \<open>[0, size_)\<close>, and the identity
  counter, the trace and the undefined-behaviour flag agree. The slots from \<open>size_\<close> on may
  differ.\<close>

definition same_view :: "nat \<Rightarrow> nat \<Rightarrow> 'a world \<Rightarrow> 'a world \<Rightarrow> bool" where
  "same_view Capacity c w1 w2 \<longleftrightarrow>
     wf Capacity (mem w1 c) \<and> wf Capacity (mem w2 c) \<and>
     m_size (mem w1 c) = m_size (mem w2 c) \<and>
     elems (mem w1 c) = elems (mem w2 c) \<and>
     next_oid w1 = next_oid w2 \<and> trace w1 = trace w2 \<and> ub w1 = ub w2"

text \<open>The precondition of \<open>operator[]\<close> along a run of mutations: every element write is at
  a position below the size the container has at that moment.\<close>

fun write_in_range :: "nat \<Rightarrow> 'a mutation \<Rightarrow> 'a world \<Rightarrow> bool" where
  "write_in_range this (Write pos x) w = (pos < m_size (mem w this))"
| "write_in_range this m w = True"

fun writes_in_range :: "nat \<Rightarrow> nat \<Rightarrow> 'a mutation list \<Rightarrow> 'a world \<Rightarrow> bool" where
  "writes_in_range Capacity this [] w = True"
| "writes_in_range Capacity this (m # ms) w =
     (write_in_range this m w \<and>
      writes_in_range Capacity this ms (snd (mutate Capacity this m w)))"

text \<open>The effect of each mutation in terms of size, live elements and ghost state.\<close>

definition view :: "'a world \<Rightarrow> nat \<Rightarrow> nat \<times> 'a obj option list \<times> nat \<times> event list \<times> bool" where
  "view w c = (m_size (mem w c), elems (mem w c), next_oid w, trace w, ub w)"

text \<open>One step of a client program: a constructor, an assignment or the destructor of the
  container at an address, or a mutation of it. \<open>run\<close> executes a list of steps.\<close>

datatype 'a op =
    DefaultCtor nat
  | CopyCtor nat nat
  | MoveCtor nat nat
  | CopyAssign nat nat
  | MoveAssign nat nat
  | Dtor nat
  | Mutate nat "'a mutation"

fun step :: "('a \<Rightarrow> 'a) \<Rightarrow> nat \<Rightarrow> 'a op \<Rightarrow> 'a world \<Rightarrow> 'a world" where
  "step mf Capacity (DefaultCtor this) w = default_ctor Capacity this w"
| "step mf Capacity (CopyCtor this other) w = copy_ctor Capacity this other w"
| "step mf Capacity (MoveCtor this other) w = move_ctor mf Capacity this other w"
| "step mf Capacity (CopyAssign this other) w = copy_assign this other w"
| "step mf Capacity (MoveAssign this other) w = move_assign mf this other w"
| "step mf Capacity (Dtor this) w = dtor this w"
| "step mf Capacity (Mutate this m) w = snd (mutate Capacity this m w)"

fun run :: "('a \<Rightarrow> 'a) \<Rightarrow> nat \<Rightarrow> 'a op list \<Rightarrow> 'a world \<Rightarrow> 'a world" where
  "run mf Capacity [] w = w"
| "run mf Capacity (x # xs) w = run mf Capacity xs (step mf Capacity x w)"

text \<open>Every container has at most \<open>Capacity\<close> elements.\<close>

definition bounded :: "nat \<Rightarrow> 'a world \<Rightarrow> bool" where
  "bounded Capacity w \<longleftrightarrow> (\<forall>a. m_size (mem w a) \<le> Capacity)"

text \<open>The program of the test \<open>MoveConstructor\<close>, for one element and with the two
  destructor calls of the scope exit written out:
  \<^verbatim>\<open>{ static_vector<T, 5> a; a.emplace_back(7); static_vector<T, 5> b = std::move(a); }\<close>\<close>

definition move_program :: "int op list" where
  "move_program = [DefaultCtor 0, Mutate 0 (Insert (Emplace 7)), MoveCtor 1 0, Dtor 1, Dtor 0]"

subsection \<open>The initial state and two sample states\<close>

text \<open>A state in which every address holds an empty container of \<open>Capacity\<close> raw slots.\<close>

definition world0 :: "nat \<Rightarrow> 'a world" where
  "world0 Capacity = \<lparr>mem = (\<lambda>a. raw Capacity 0), next_oid = 0, trace = [], ub = False\<rparr>"

text \<open>Container 0 of capacity 3 after \<open>push_back(10)\<close> and \<open>push_back(20)\<close>; every other
  address holds an empty container.\<close>

definition sample :: "int world" where
  "sample =
     \<lparr>mem = (\<lambda>a. raw 3 0)(0 := \<lparr>m_storage = [Some (0, 10), Some (1, 20), None], m_size = 2\<rparr>),
      next_oid = 2, trace = [Constructed 0, Constructed 1], ub = False\<rparr>"

text \<open>A second sample state: container 0 holds 10 and 20, container 1 holds 30.\<close>

definition sample2 :: "int world" where
  "sample2 =
     \<lparr>mem = (\<lambda>a. raw 3 0)
        (0 := \<lparr>m_storage = [Some (0, 10), Some (1, 20), None], m_size = 2\<rparr>,
         1 := \<lparr>m_storage = [Some (2, 30), None, None], m_size = 1\<rparr>),
      next_oid = 3, trace = [Constructed 0, Constructed 1, Constructed 2], ub = False\<rparr>"

section \<open>Basic facts\<close>

lemma size_destroy_at [simp]: "m_size (mem (destroy_at p w) a) = m_size (mem w a)"
  by (simp add: destroy_at_def put_slot_def split: option.splits)

lemma oids_append [simp]: "oids (xs @ ys) = oids xs @ oids ys"
  by (induction xs rule: oids.induct) auto

lemma oids_Cons: "oids (x # xs) = oids [x] @ oids xs"
  by (cases x) auto

section \<open>Primitives, field by field\<close>

lemma put_slot_fields [simp]:
  "m_size (mem (put_slot p x w) a) = m_size (mem w a)"
  "m_storage (mem (put_slot p x w) a) =
     (if a = fst p then (m_storage (mem w a))[snd p := x] else m_storage (mem w a))"
  "next_oid (put_slot p x w) = next_oid w"
  "trace (put_slot p x w) = trace w"
  "ub (put_slot p x w) = ub w"
  by (simp_all add: put_slot_def)

lemma set_size_fields [simp]:
  "m_size (mem (set_size this n w) a) = (if a = this then n else m_size (mem w a))"
  "m_storage (mem (set_size this n w) a) = m_storage (mem w a)"
  "next_oid (set_size this n w) = next_oid w"
  "trace (set_size this n w) = trace w"
  "ub (set_size this n w) = ub w"
  by (simp_all add: set_size_def)

lemma placement_new_fields [simp]:
  "m_size (mem (placement_new p v w) a) = m_size (mem w a)"
  "m_storage (mem (placement_new p v w) a) =
     (if a = fst p then (m_storage (mem w a))[snd p := Some (next_oid w, v)]
      else m_storage (mem w a))"
  by (simp_all add: placement_new_def list_update_beyond)

lemma placement_new_ghost:
  "snd p < length (m_storage (mem w (fst p))) \<Longrightarrow>
     next_oid (placement_new p v w) = Suc (next_oid w) \<and>
     trace (placement_new p v w) = trace w @ [Constructed (next_oid w)] \<and>
     ub (placement_new p v w) = ub w"
  by (simp add: placement_new_def)

lemma slot_eq:
  "slot w p = (if snd p < length (m_storage (mem w (fst p)))
               then m_storage (mem w (fst p)) ! snd p else None)"
  by (simp add: slot_def)

lemma destroy_at_fields [simp]:
  "m_storage (mem (destroy_at p w) a) =
     (if a = fst p then (m_storage (mem w a))[snd p := None] else m_storage (mem w a))"
  "next_oid (destroy_at p w) = next_oid w"
  "trace (destroy_at p w) = trace w @ map Destroyed (oids [slot w p])"
  "ub (destroy_at p w) = (ub w \<or> slot w p = None)"
proof -
  show "m_storage (mem (destroy_at p w) a) =
     (if a = fst p then (m_storage (mem w a))[snd p := None] else m_storage (mem w a))"
  proof (cases "snd p < length (m_storage (mem w (fst p)))")
    case True
    then show ?thesis
      by (cases "m_storage (mem w (fst p)) ! snd p")
        (auto simp: destroy_at_def slot_def list_update_same_conv [THEN iffD2, symmetric])
  next
    case False
    then show ?thesis
      by (simp add: destroy_at_def slot_def list_update_beyond)
  qed
qed (auto simp: destroy_at_def slot_def Let_def split: option.splits)

lemma world_eqI:
  assumes "\<And>a. m_storage (mem w1 a) = m_storage (mem w2 a)"
    and "\<And>a. m_size (mem w1 a) = m_size (mem w2 a)"
    and "next_oid w1 = next_oid w2" and "trace w1 = trace w2" and "ub w1 = ub w2"
  shows "w1 = (w2 :: 'a world)"
proof -
  have "mem w1 = mem w2"
    using assms(1,2) by (intro ext static_vector.equality) simp_all
  then show ?thesis using assms(3-5) by (intro world.equality) simp_all
qed

section \<open>The loop of clear\<close>

lemma length_blank [simp]: "length (blank i n st) = length st"
  by (simp add: blank_def)

lemma nth_blank [simp]:
  "j < length st \<Longrightarrow> blank i n st ! j = (if i \<le> j \<and> j < n then None else st ! j)"
  by (simp add: blank_def)

lemma blank_empty [simp]: "n \<le> i \<Longrightarrow> blank i n st = st"
  by (rule nth_equalityI) auto

lemma blank_step: "i < n \<Longrightarrow> blank (Suc i) n (st[i := None]) = blank i n st"
  by (rule nth_equalityI) (auto simp: nth_list_update)

lemma clear_loop_frame [simp]:
  "m_size (mem (clear_loop this i w) a) = m_size (mem w a)"
  "next_oid (clear_loop this i w) = next_oid w"
  "a \<noteq> this \<Longrightarrow> m_storage (mem (clear_loop this i w) a) = m_storage (mem w a)"
  by (induction this i w rule: clear_loop.induct; subst clear_loop.simps; simp add: data_def ptr_add_def)+

lemma clear_loop_storage:
  "m_storage (mem (clear_loop this i w) this) =
     blank i (m_size (mem w this)) (m_storage (mem w this))"
proof (induction this i w rule: clear_loop.induct)
  case (1 this i w)
  show ?case
  proof (cases "i < m_size (mem w this)")
    case True
    with 1 show ?thesis
      by (subst clear_loop.simps) (simp add: data_def ptr_add_def blank_step)
  next
    case False
    then show ?thesis by (subst clear_loop.simps) simp
  qed
qed

lemma clear_loop_trace:
  "trace (clear_loop this i w) =
     trace w @ map Destroyed (oids (drop i (take (m_size (mem w this)) (m_storage (mem w this)))))"
proof (induction this i w rule: clear_loop.induct)
  case (1 this i w)
  let ?n = "m_size (mem w this)" and ?st = "m_storage (mem w this)"
  show ?case
  proof (cases "i < ?n")
    case True
    note lt = this
    show ?thesis
    proof (cases "i < length ?st")
      case True
      have c: "drop i (take ?n ?st) = ?st ! i # drop (Suc i) (take ?n ?st)"
        using lt True by (simp add: Cons_nth_drop_Suc [symmetric])
      have d: "oids (drop i (take ?n ?st)) =
          oids [?st ! i] @ oids (drop (Suc i) (take ?n ?st))"
        by (subst c) (rule oids_Cons)
      have e: "drop (Suc i) (take ?n (?st[i := None])) = drop (Suc i) (take ?n ?st)"
        by (simp add: drop_take)
      show ?thesis using 1 lt True
        by (subst clear_loop.simps) (simp add: data_def ptr_add_def slot_eq d e)
    next
      case False
      then show ?thesis using 1 lt
        by (subst clear_loop.simps) (simp add: data_def ptr_add_def slot_eq)
    qed
  next
    case False
    then show ?thesis by (subst clear_loop.simps) simp
  qed
qed

lemma clear_loop_ub:
  assumes "m_size (mem w this) \<le> length (m_storage (mem w this))"
    and "\<forall>j. i \<le> j \<and> j < m_size (mem w this) \<longrightarrow> m_storage (mem w this) ! j \<noteq> None"
  shows "ub (clear_loop this i w) = ub w"
  using assms
proof (induction this i w rule: clear_loop.induct)
  case (1 this i w)
  show ?case
  proof (cases "i < m_size (mem w this)")
    case True
    have "ub (clear_loop this (Suc i) (destroy_at (ptr_add (data this) i) w)) =
          ub (destroy_at (ptr_add (data this) i) w)"
      using True 1(2,3) by (intro 1(1)) (auto simp: data_def ptr_add_def nth_list_update)
    then show ?thesis using True 1(2,3)
      by (subst clear_loop.simps) (simp add: data_def ptr_add_def slot_eq)
  next
    case False
    then show ?thesis by (subst clear_loop.simps) simp
  qed
qed

section \<open>Insertion at the tail\<close>

lemma insert_back_eq:
  "insert_back Capacity this x w = push_back Capacity this (inserted_value x) w"
  by (cases x) (simp_all add: emplace_back_def push_back_def push_back_move_def)

lemma push_back_full:
  "Capacity \<le> m_size (mem w this) \<Longrightarrow> push_back Capacity this v w = (OutOfSpace, w)"
  by (simp add: push_back_def)

lemma push_back_ok:
  assumes "m_size (mem w this) < Capacity"
  shows "fst (push_back Capacity this v w) = NoError"
    and "m_size (mem (snd (push_back Capacity this v w)) a) =
           (if a = this then Suc (m_size (mem w this)) else m_size (mem w a))"
    and "m_storage (mem (snd (push_back Capacity this v w)) a) =
           (if a = this then (m_storage (mem w this))[m_size (mem w this) := Some (next_oid w, v)]
            else m_storage (mem w a))"
  using assms by (simp_all add: push_back_def Let_def data_def ptr_add_def)

lemma push_back_ghost:
  assumes "m_size (mem w this) < Capacity" "length (m_storage (mem w this)) = Capacity"
  shows "next_oid (snd (push_back Capacity this v w)) = Suc (next_oid w)"
    and "trace (snd (push_back Capacity this v w)) = trace w @ [Constructed (next_oid w)]"
    and "ub (snd (push_back Capacity this v w)) = ub w"
  using assms by (simp_all add: push_back_def Let_def data_def ptr_add_def placement_new_ghost)

lemma push_back_other:
  "a \<noteq> this \<Longrightarrow> mem (snd (push_back Capacity this v w)) a = mem w a"
  by (cases "m_size (mem w this) < Capacity")
     (auto intro!: static_vector.equality simp: push_back_ok push_back_full)

lemma push_back_elems:
  assumes "m_size (mem w this) < Capacity" "length (m_storage (mem w this)) = Capacity"
  shows "elems (mem (snd (push_back Capacity this v w)) this) =
           elems (mem w this) @ [Some (next_oid w, v)]"
  using assms by (simp add: elems_def push_back_ok take_Suc_conv_app_nth)

lemma push_all_ok:
  assumes "length (m_storage (mem w this)) = Capacity"
    and "m_size (mem w this) + length xs \<le> Capacity"
  shows "fst (push_all Capacity this xs w) = replicate (length xs) NoError \<and>
         m_size (mem (snd (push_all Capacity this xs w)) this) = m_size (mem w this) + length xs"
  using assms
proof (induction xs arbitrary: w)
  case Nil
  then show ?case by simp
next
  case (Cons x xs)
  let ?w1 = "snd (push_back Capacity this (inserted_value x) w)"
  have lt: "m_size (mem w this) < Capacity" using Cons.prems by simp
  have "length (m_storage (mem ?w1 this)) = Capacity"
    using Cons.prems lt by (simp add: push_back_ok)
  moreover have "m_size (mem ?w1 this) + length xs \<le> Capacity"
    using Cons.prems lt by (simp add: push_back_ok)
  ultimately have IH: "fst (push_all Capacity this xs ?w1) = replicate (length xs) NoError \<and>
      m_size (mem (snd (push_all Capacity this xs ?w1)) this) = m_size (mem ?w1 this) + length xs"
    by (rule Cons.IH)
  have "insert_back Capacity this x w = (NoError, ?w1)"
    by (simp add: insert_back_eq prod_eq_iff push_back_ok(1) [OF lt])
  then show ?case using IH lt
    by (simp add: split_beta push_back_ok)
qed

lemma world0_fields [simp]:
  "m_size (mem (world0 Capacity) a) = 0"
  "m_storage (mem (world0 Capacity) a) = replicate Capacity None"
  "next_oid (world0 Capacity) = 0" "trace (world0 Capacity) = []" "ub (world0 Capacity) = False"
  by (simp_all add: world0_def raw_def)

lemma default_ctor_fields [simp]:
  "m_size (mem (default_ctor Capacity this w) a) = (if a = this then 0 else m_size (mem w a))"
  "m_storage (mem (default_ctor Capacity this w) a) =
     (if a = this then replicate Capacity None else m_storage (mem w a))"
  "next_oid (default_ctor Capacity this w) = next_oid w"
  "trace (default_ctor Capacity this w) = trace w"
  "ub (default_ctor Capacity this w) = ub w"
  by (simp_all add: default_ctor_def raw_def)

text \<open>
  C1 (push contract). At \<open>size_ = Capacity\<close> each of \<open>emplace_back\<close>, \<open>push_back(const T&)\<close>
  and \<open>push_back(T&&)\<close> returns \<open>OutOfSpace\<close> and the whole state is unchanged. At
  \<open>size_ < Capacity\<close> (the array having its \<open>Capacity\<close> slots) each returns \<open>NoError\<close>,
  constructs one new object with the inserted value at slot \<open>size_\<close>, increments \<open>size_\<close>,
  leaves the elements \<open>[0, size_)\<close> and every other container as they were, and raises no
  undefined behaviour. Consequently \<open>Capacity\<close> insertions into a default-constructed
  container all return \<open>NoError\<close> and end at size \<open>Capacity\<close>, and one more returns
  \<open>OutOfSpace\<close> and changes nothing.
\<close>

theorem push_contract:
  fixes w :: "'a world"
  shows
   "(m_size (mem w this) = Capacity \<longrightarrow> insert_back Capacity this x w = (OutOfSpace, w)) \<and>
    (m_size (mem w this) < Capacity \<and> length (m_storage (mem w this)) = Capacity \<longrightarrow>
       fst (insert_back Capacity this x w) = NoError \<and>
       m_storage (mem (snd (insert_back Capacity this x w)) this) =
         (m_storage (mem w this))[m_size (mem w this) := Some (next_oid w, inserted_value x)] \<and>
       m_size (mem (snd (insert_back Capacity this x w)) this) = Suc (m_size (mem w this)) \<and>
       elems (mem (snd (insert_back Capacity this x w)) this) =
         elems (mem w this) @ [Some (next_oid w, inserted_value x)] \<and>
       trace (snd (insert_back Capacity this x w)) = trace w @ [Constructed (next_oid w)] \<and>
       ub (snd (insert_back Capacity this x w)) = ub w \<and>
       (\<forall>a. a \<noteq> this \<longrightarrow> mem (snd (insert_back Capacity this x w)) a = mem w a)) \<and>
    (length xs = Capacity \<longrightarrow>
       fst (push_all Capacity this xs (default_ctor Capacity this w)) =
         replicate Capacity NoError \<and>
       size_sv (snd (push_all Capacity this xs (default_ctor Capacity this w))) this = Capacity \<and>
       insert_back Capacity this x (snd (push_all Capacity this xs (default_ctor Capacity this w))) =
         (OutOfSpace, snd (push_all Capacity this xs (default_ctor Capacity this w))))"
proof (intro conjI impI)
  assume "m_size (mem w this) = Capacity"
  then show "insert_back Capacity this x w = (OutOfSpace, w)"
    by (simp add: insert_back_eq push_back_full)
next
  assume len: "length xs = Capacity"
  let ?w = "default_ctor Capacity this w"
  have "fst (push_all Capacity this xs ?w) = replicate (length xs) NoError \<and>
        m_size (mem (snd (push_all Capacity this xs ?w)) this) = m_size (mem ?w this) + length xs"
    by (rule push_all_ok) (simp_all add: len)
  then show "fst (push_all Capacity this xs ?w) = replicate Capacity NoError"
    and s: "size_sv (snd (push_all Capacity this xs ?w)) this = Capacity"
    by (simp_all add: len size_sv_def)
  from s show "insert_back Capacity this x (snd (push_all Capacity this xs ?w)) =
         (OutOfSpace, snd (push_all Capacity this xs ?w))"
    by (simp add: insert_back_eq push_back_full size_sv_def)
qed (simp_all add: insert_back_eq push_back_ok push_back_ghost push_back_elems push_back_other)

theorem push_contract_witness:
  "m_size (mem (world0 2 :: int world) 0) < 2 \<and> length (m_storage (mem (world0 2 :: int world) 0)) = 2 \<and>
   fst (insert_back 2 0 (PushCopy 7) (world0 2 :: int world)) = NoError \<and>
   m_storage (mem (snd (insert_back 2 0 (PushCopy 7) (world0 2 :: int world))) 0) = [Some (0, 7), None] \<and>
   m_size (mem (snd (insert_back 2 0 (PushCopy 7) (world0 2 :: int world))) 0) = 1 \<and>
   length [Emplace 1, PushMove (2::int)] = 2 \<and>
   fst (push_all 2 0 [Emplace 1, PushMove 2] (default_ctor 2 0 (world0 2 :: int world))) = [NoError, NoError] \<and>
   size_sv (snd (push_all 2 0 [Emplace 1, PushMove 2] (default_ctor 2 0 (world0 2 :: int world)))) 0 = 2 \<and>
   fst (insert_back 2 0 (PushCopy 7) (snd (push_all 2 0 [Emplace 1, PushMove 2] (default_ctor 2 0 (world0 2 :: int world))))) = OutOfSpace"
proof -
  let ?w = "world0 2 :: int world"
  have h: "m_size (mem ?w 0) < 2 \<and> length (m_storage (mem ?w 0)) = 2" by simp
  have l: "length [Emplace 1, PushMove (2::int)] = 2" by simp
  note t = push_contract [of ?w 0 2 "PushCopy 7" "[Emplace 1, PushMove 2]"]
  from t [THEN conjunct2, THEN conjunct1, THEN mp, OF h]
       t [THEN conjunct2, THEN conjunct2, THEN mp, OF l] h l
  show ?thesis by (simp add: numeral_2_eq_2)
qed

section \<open>Facts about the invariant\<close>

lemma wf_nth:
  assumes "wf Capacity sv" "i < m_size sv"
  shows "\<exists>oid v. m_storage sv ! i = Some (oid, v)"
proof -
  have "i < length (take (m_size sv) (m_storage sv))" using assms by (simp add: wf_def)
  moreover have "list_all (\<lambda>x. x \<noteq> None) (take (m_size sv) (m_storage sv))"
    using assms by (simp add: wf_def)
  ultimately have "take (m_size sv) (m_storage sv) ! i \<noteq> None"
    by (auto simp: list_all_length)
  then show ?thesis using assms by auto
qed

lemma wf_size: "wf Capacity sv \<Longrightarrow> m_size sv \<le> length (m_storage sv)"
  by (simp add: wf_def)

lemma wfI:
  assumes "length (m_storage sv) = Capacity" "m_size sv \<le> Capacity"
    and "\<And>i. i < m_size sv \<Longrightarrow> m_storage sv ! i \<noteq> None"
  shows "wf Capacity sv"
  using assms by (simp add: wf_def list_all_length)

lemma oids_all_live:
  "list_all (\<lambda>x. x \<noteq> None) xs \<Longrightarrow>
     length (oids xs) = length xs \<and> (\<forall>i<length xs. \<exists>v. xs ! i = Some (oids xs ! i, v))"
proof (induction xs rule: oids.induct)
  case (3 oid v xs)
  then show ?case by (auto simp: nth_Cons split: nat.splits)
qed simp_all

section \<open>The sample states\<close>

lemma sample_fields [simp]:
  "m_size (mem sample a) = (if a = 0 then 2 else 0)"
  "m_storage (mem sample a) =
     (if a = 0 then [Some (0, 10), Some (1, 20), None] else [None, None, None])"
  "next_oid sample = 2" "trace sample = [Constructed 0, Constructed 1]" "ub sample = False"
  by (simp_all add: sample_def raw_def numeral_3_eq_3)

lemma sample_reachable:
  "sample = snd (push_all 3 0 [PushCopy 10, PushCopy 20] (default_ctor 3 0 (world0 3)))"
  by (rule world_eqI)
     (simp_all add: push_back_ok push_back_ghost split_beta numeral_3_eq_3)

lemma wf_sample [simp]: "wf 3 (mem sample a)"
  by (simp add: wf_def)

lemma sample2_fields [simp]:
  "m_size (mem sample2 a) = (if a = 0 then 2 else if a = 1 then 1 else 0)"
  "m_storage (mem sample2 a) =
     (if a = 0 then [Some (0, 10), Some (1, 20), None]
      else if a = 1 then [Some (2, 30), None, None] else [None, None, None])"
  "next_oid sample2 = 3" "trace sample2 = [Constructed 0, Constructed 1, Constructed 2]"
  "ub sample2 = False"
  by (simp_all add: sample2_def raw_def numeral_3_eq_3)

lemma sample2_reachable: "sample2 = snd (push_back 3 1 30 sample)"
  by (rule world_eqI) (simp_all add: push_back_ok push_back_ghost)

lemma wf_sample2 [simp]: "wf 3 (mem sample2 a)"
  by (simp add: wf_def)

section \<open>Removal at the tail\<close>

lemma pop_back_empty: "m_size (mem w this) = 0 \<Longrightarrow> pop_back this w = (Empty, w)"
  by (simp add: pop_back_def)

lemma pop_back_fields:
  assumes "0 < m_size (mem w this)"
  shows "fst (pop_back this w) = NoError"
    and "m_size (mem (snd (pop_back this w)) a) =
           (if a = this then m_size (mem w this) - 1 else m_size (mem w a))"
    and "m_storage (mem (snd (pop_back this w)) a) =
           (if a = this then (m_storage (mem w this))[m_size (mem w this) - 1 := None]
            else m_storage (mem w a))"
    and "next_oid (snd (pop_back this w)) = next_oid w"
    and "trace (snd (pop_back this w)) =
           trace w @ map Destroyed (oids [slot w (this, m_size (mem w this) - 1)])"
    and "ub (snd (pop_back this w)) = (ub w \<or> slot w (this, m_size (mem w this) - 1) = None)"
  using assms by (simp_all add: pop_back_def Let_def data_def ptr_add_def slot_eq)

text \<open>
  C2 (\<open>pop_back\<close> contract). On an empty container \<open>pop_back\<close> returns \<open>Empty\<close> and the
  whole state is unchanged (so no destructor runs). On a container with \<open>size_ > 0\<close> that
  satisfies the representation invariant it returns \<open>NoError\<close>, runs exactly one
  destructor, that of the object in slot \<open>size_ - 1\<close>, decrements \<open>size_\<close>, leaves the
  elements \<open>[0, size_ - 1)\<close> and every other container as they were, and raises no
  undefined behaviour.
\<close>

theorem pop_back_contract:
  fixes w :: "'a world"
  shows
   "(m_size (mem w this) = 0 \<longrightarrow> pop_back this w = (Empty, w)) \<and>
    (0 < m_size (mem w this) \<and> wf Capacity (mem w this) \<longrightarrow>
       fst (pop_back this w) = NoError \<and>
       (\<exists>oid v. m_storage (mem w this) ! (m_size (mem w this) - 1) = Some (oid, v) \<and>
                trace (snd (pop_back this w)) = trace w @ [Destroyed oid]) \<and>
       m_size (mem (snd (pop_back this w)) this) = m_size (mem w this) - 1 \<and>
       m_storage (mem (snd (pop_back this w)) this) =
         (m_storage (mem w this))[m_size (mem w this) - 1 := None] \<and>
       elems (mem (snd (pop_back this w)) this) = butlast (elems (mem w this)) \<and>
       next_oid (snd (pop_back this w)) = next_oid w \<and>
       ub (snd (pop_back this w)) = ub w \<and>
       (\<forall>a. a \<noteq> this \<longrightarrow> mem (snd (pop_back this w)) a = mem w a))"
proof (intro conjI impI allI)
  assume "m_size (mem w this) = 0"
  then show "pop_back this w = (Empty, w)" by (rule pop_back_empty)
next
  assume a: "0 < m_size (mem w this) \<and> wf Capacity (mem w this)"
  let ?n = "m_size (mem w this)" and ?st = "m_storage (mem w this)"
  from a have pos: "0 < ?n" and w: "wf Capacity (mem w this)" by simp_all
  from wf_nth [OF w, of "?n - 1"] pos obtain oid v where s: "?st ! (?n - 1) = Some (oid, v)"
    by auto
  have r: "?n - 1 < length ?st" using pos wf_size [OF w] by arith
  have sl: "slot w (this, ?n - 1) = Some (oid, v)" using s r by (simp add: slot_eq)
  show "fst (pop_back this w) = NoError" by (simp add: pop_back_fields [OF pos])
  show "\<exists>oid v. ?st ! (?n - 1) = Some (oid, v) \<and>
          trace (snd (pop_back this w)) = trace w @ [Destroyed oid]"
    using s sl by (simp add: pop_back_fields [OF pos])
  show "m_size (mem (snd (pop_back this w)) this) = ?n - 1"
    by (simp add: pop_back_fields [OF pos])
  show "m_storage (mem (snd (pop_back this w)) this) = ?st[?n - 1 := None]"
    by (simp add: pop_back_fields [OF pos])
  show "elems (mem (snd (pop_back this w)) this) = butlast (elems (mem w this))"
    using wf_size [OF w] by (simp add: elems_def pop_back_fields [OF pos] butlast_take)
  show "next_oid (snd (pop_back this w)) = next_oid w"
    by (simp add: pop_back_fields [OF pos])
  show "ub (snd (pop_back this w)) = ub w"
    using sl by (simp add: pop_back_fields [OF pos])
  fix a assume "a \<noteq> this"
  then show "mem (snd (pop_back this w)) a = mem w a"
    by (intro static_vector.equality) (simp_all add: pop_back_fields [OF pos])
qed

theorem pop_back_contract_witness:
  "0 < m_size (mem sample 0) \<and> wf 3 (mem sample 0) \<and>
   fst (pop_back 0 sample) = NoError \<and>
   trace (snd (pop_back 0 sample)) = [Constructed 0, Constructed 1, Destroyed 1] \<and>
   m_size (mem (snd (pop_back 0 sample)) 0) = 1 \<and>
   m_storage (mem (snd (pop_back 0 sample)) 0) = [Some (0, 10), None, None] \<and>
   ub (snd (pop_back 0 sample)) = False"
proof -
  have h: "0 < m_size (mem sample 0) \<and> wf 3 (mem sample 0)" by simp
  from pop_back_contract [of sample 0 3, THEN conjunct2, THEN mp, OF h] h
  show ?thesis by simp
qed

section \<open>Bulk reset\<close>

lemma clear_fields [simp]:
  "m_size (mem (clear this w) a) = (if a = this then 0 else m_size (mem w a))"
  "m_storage (mem (clear this w) a) =
     (if a = this then blank 0 (m_size (mem w this)) (m_storage (mem w this))
      else m_storage (mem w a))"
  "next_oid (clear this w) = next_oid w"
  "trace (clear this w) = trace w @ map Destroyed (oids (elems (mem w this)))"
  by (simp_all add: clear_def clear_loop_storage clear_loop_trace elems_def)

lemma clear_ub: "wf Capacity (mem w this) \<Longrightarrow> ub (clear this w) = ub w"
  using wf_nth [of Capacity "mem w this"]
  by (simp add: clear_def) (rule clear_loop_ub, auto simp: wf_size)

lemma clear_empty: "m_size (mem w this) = 0 \<Longrightarrow> clear this w = w"
  by (rule world_eqI) (auto simp: elems_def clear_def clear_loop.simps)

lemma wf_clear: "length (m_storage (mem w this)) = Capacity \<Longrightarrow> wf Capacity (mem (clear this w) this)"
  by (simp add: wf_def)

text \<open>
  C6 (\<open>clear\<close> contract and idempotence). On a container that satisfies the
  representation invariant, \<open>clear()\<close> runs the destructor of each of the \<open>size_\<close> objects
  in the slots \<open>[0, size_)\<close>, once each and in the order of increasing index (the \<open>i\<close>-th
  destructor call is that of the object in slot \<open>i\<close>), sets \<open>size_\<close> to 0, leaves the other
  containers alone and raises no undefined behaviour. On an empty container \<open>clear()\<close>
  changes nothing at all; so after two calls in a row the size is 0 both times and the
  second call adds no destructor call to the trace.
\<close>

theorem clear_contract:
  fixes w :: "'a world"
  shows
   "(wf Capacity (mem w this) \<longrightarrow>
       trace (clear this w) = trace w @ map Destroyed (oids (elems (mem w this))) \<and>
       length (oids (elems (mem w this))) = m_size (mem w this) \<and>
       (\<forall>i<m_size (mem w this).
          \<exists>v. m_storage (mem w this) ! i = Some (oids (elems (mem w this)) ! i, v)) \<and>
       ub (clear this w) = ub w) \<and>
    size_sv (clear this w) this = 0 \<and>
    next_oid (clear this w) = next_oid w \<and>
    (\<forall>a. a \<noteq> this \<longrightarrow> mem (clear this w) a = mem w a) \<and>
    (m_size (mem w this) = 0 \<longrightarrow> clear this w = w) \<and>
    clear this (clear this w) = clear this w \<and>
    size_sv (clear this (clear this w)) this = 0 \<and>
    trace (clear this (clear this w)) = trace (clear this w)"
proof -
  have idem: "clear this (clear this w) = clear this w"
    by (rule clear_empty) simp
  have live: "length (oids (elems (mem w this))) = m_size (mem w this) \<and>
       (\<forall>i<m_size (mem w this).
          \<exists>v. m_storage (mem w this) ! i = Some (oids (elems (mem w this)) ! i, v))"
    if w: "wf Capacity (mem w this)"
  proof -
    have "list_all (\<lambda>x. x \<noteq> None) (elems (mem w this))"
      using w by (simp add: wf_def elems_def)
    from oids_all_live [OF this] wf_size [OF w] show ?thesis
      by (simp add: elems_def)
  qed
  have other: "mem (clear this w) a = mem w a" if "a \<noteq> this" for a
    using that by (intro static_vector.equality) simp_all
  show ?thesis
    using idem live other by (simp add: size_sv_def clear_ub clear_empty)
qed

theorem clear_contract_witness:
  "wf 3 (mem sample 0) \<and>
   trace (clear 0 sample) = [Constructed 0, Constructed 1, Destroyed 0, Destroyed 1] \<and>
   size_sv (clear 0 sample) 0 = 0 \<and>
   ub (clear 0 sample) = False \<and>
   m_size (mem (clear 0 sample) 0) = 0 \<and>
   clear 0 (clear 0 sample) = clear 0 sample"
proof -
  have h: "wf 3 (mem sample 0)" by simp
  note t = clear_contract [of 3 sample 0]
  from t [THEN conjunct1, THEN mp, OF h] t [THEN conjunct2] h
  show ?thesis by (simp add: elems_def)
qed

section \<open>Checked access\<close>

text \<open>
  C7 (checked access). \<open>at_if(k)\<close> is \<open>nullptr\<close> exactly when \<open>k \<ge> size()\<close> and otherwise
  the address of slot \<open>k\<close>; \<open>front_if()\<close> and \<open>back_if()\<close> are \<open>nullptr\<close> exactly when
  \<open>size() = 0\<close> and otherwise the addresses of slot 0 and slot \<open>size() - 1\<close>; under the
  representation invariant each pointer that is not \<open>nullptr\<close> points at a live object.
  The three members only read the state: their models return a pointer and no state.
\<close>

theorem checked_access_contract:
  fixes w :: "'a world"
  shows
   "(at_if w this k = None \<longleftrightarrow> size_sv w this \<le> k) \<and>
    (k < size_sv w this \<longrightarrow> at_if w this k = Some (this, k)) \<and>
    (front_if w this = None \<longleftrightarrow> size_sv w this = 0) \<and>
    (0 < size_sv w this \<longrightarrow> front_if w this = Some (this, 0)) \<and>
    (back_if w this = None \<longleftrightarrow> size_sv w this = 0) \<and>
    (0 < size_sv w this \<longrightarrow> back_if w this = Some (this, size_sv w this - 1)) \<and>
    (wf Capacity (mem w this) \<longrightarrow>
       (\<forall>p. at_if w this k = Some p \<or> front_if w this = Some p \<or> back_if w this = Some p
            \<longrightarrow> slot w p \<noteq> None))"
proof -
  have "slot w (this, i) \<noteq> None" if "wf Capacity (mem w this)" "i < m_size (mem w this)" for i
    using wf_nth [OF that] wf_size [OF that(1)] that(2) by (auto simp: slot_eq)
  then show ?thesis
    by (auto simp: at_if_def front_if_def back_if_def size_sv_def data_def ptr_add_def)
qed

theorem checked_access_contract_witness:
  "wf 3 (mem sample 0) \<and> (1::nat) < size_sv sample 0 \<and> 0 < size_sv sample 0 \<and>
   at_if sample 0 1 = Some (0, 1) \<and> slot sample (0, 1) = Some (1, 20) \<and>
   at_if sample 0 2 = None \<and>
   front_if sample 0 = Some (0, 0) \<and> back_if sample 0 = Some (0, 1) \<and>
   front_if sample 5 = None \<and> back_if sample 5 = None"
proof -
  have h: "wf 3 (mem sample 0)" and k: "(1::nat) < size_sv sample 0" "0 < size_sv sample 0"
    by (simp_all add: size_sv_def)
  note t = checked_access_contract [of sample 0 1 3]
  note u = checked_access_contract [of sample 0 2 3]
  note v = checked_access_contract [of sample 5 0 3]
  have "at_if sample 0 1 = Some (0, 1)"
    using t [THEN conjunct2, THEN conjunct1, THEN mp, OF k(1)] .
  moreover have "at_if sample 0 2 = None"
    using u [THEN conjunct1] by (simp add: size_sv_def)
  moreover have "front_if sample 5 = None \<and> back_if sample 5 = None"
    using v by (simp add: size_sv_def)
  moreover have "front_if sample 0 = Some (0, 0) \<and> back_if sample 0 = Some (0, 1)"
    using t k by (simp add: size_sv_def)
  moreover have "slot sample (0, 1) = Some (1, 20)" by (simp add: slot_eq)
  ultimately show ?thesis using h k by simp
qed

section \<open>Self-assignment\<close>

text \<open>
  C10 (self-assignment). Both assignment operators compare \<open>this\<close> with the address of
  the argument and do nothing when they are equal: \<open>v = v\<close> and \<open>v = std::move(v)\<close> leave
  the whole state unchanged, so the size and the elements of \<open>v\<close> are the same and the
  trace has no new destructor call.
\<close>

theorem self_assignment_noop:
  "copy_assign this this w = w \<and> move_assign mf this this w = w \<and>
   size_sv (copy_assign this this w) this = size_sv w this \<and>
   size_sv (move_assign mf this this w) this = size_sv w this \<and>
   elems (mem (copy_assign this this w) this) = elems (mem w this) \<and>
   elems (mem (move_assign mf this this w) this) = elems (mem w this) \<and>
   trace (copy_assign this this w) = trace w \<and>
   trace (move_assign mf this this w) = trace w"
  by (simp add: copy_assign_def move_assign_def)

section \<open>The copy and move loops\<close>

lemma copy_construct_size [simp]:
  "m_size (mem (copy_construct d s w) a) = m_size (mem w a)"
  by (simp add: copy_construct_def split: option.splits)

lemma move_construct_size [simp]:
  "m_size (mem (move_construct mf d s w) a) = m_size (mem w a)"
  by (simp add: move_construct_def split: option.splits)

lemma copy_construct_other [simp]:
  "a \<noteq> fst d \<Longrightarrow> m_storage (mem (copy_construct d s w) a) = m_storage (mem w a)"
  by (simp add: copy_construct_def split: option.splits)

lemma uninitialized_copy_n_size [simp]:
  "m_size (mem (uninitialized_copy_n first n d_first w) a) = m_size (mem w a)"
  by (induction n arbitrary: first d_first w) simp_all

lemma uninitialized_move_n_size [simp]:
  "m_size (mem (uninitialized_move_n mf first n d_first w) a) = m_size (mem w a)"
  by (induction n arbitrary: first d_first w) simp_all

lemma uninitialized_copy_n_other [simp]:
  "a \<noteq> fst d_first \<Longrightarrow>
     m_storage (mem (uninitialized_copy_n first n d_first w) a) = m_storage (mem w a)"
  by (induction n arbitrary: first d_first w) (simp_all add: ptr_add_def)

lemma reid_simps [simp]: "reid b None = None" "reid b (Some (oid, v)) = Some (b, v)"
  by (simp_all add: reid_def)

lemma residue_simps [simp]:
  "residue mf None = None" "residue mf (Some (oid, v)) = Some (oid, mf v)"
  by (simp_all add: residue_def)

lemma length_fill [simp]: "length (fill i j n b sts std) = length std"
  by (simp add: fill_def)

lemma length_spent [simp]: "length (spent mf i n sts) = length sts"
  by (simp add: spent_def)

lemma nth_fill:
  "k < length std \<Longrightarrow> fill i j n b sts std ! k =
     (if j \<le> k \<and> k < j + n
      then reid (b + (k - j)) (sts ! (i + (k - j)))
      else std ! k)"
  by (simp add: fill_def)

lemma nth_spent:
  "k < length sts \<Longrightarrow> spent mf i n sts ! k =
     (if i \<le> k \<and> k < i + n
      then residue mf (sts ! k)
      else sts ! k)"
  by (simp add: spent_def)

lemma fill_0 [simp]: "fill i j 0 b sts std = std"
  by (rule nth_equalityI) (auto simp: nth_fill)

lemma spent_0 [simp]: "spent mf i 0 sts = sts"
  by (rule nth_equalityI) (auto simp: nth_spent)

lemma fill_step:
  assumes "sts ! i = Some (oid, v)" "j < length std"
    and that: "\<And>k. i < k \<Longrightarrow> sts' ! k = sts ! k"
  shows "fill (Suc i) (Suc j) n (Suc b) sts' (std[j := Some (b, v)]) = fill i j (Suc n) b sts std"
proof (rule nth_equalityI)
  show "length (fill (Suc i) (Suc j) n (Suc b) sts' (std[j := Some (b, v)])) =
        length (fill i j (Suc n) b sts std)" by simp
next
  fix k assume "k < length (fill (Suc i) (Suc j) n (Suc b) sts' (std[j := Some (b, v)]))"
  then have k: "k < length std" by simp
  consider "k < j" | "k = j" | "j < k" "k < Suc j + n" | "Suc j + n \<le> k" by linarith
  then show "fill (Suc i) (Suc j) n (Suc b) sts' (std[j := Some (b, v)]) ! k =
        fill i j (Suc n) b sts std ! k"
  proof cases
    case 3
    then have "Suc i + (k - Suc j) = i + (k - j)" "Suc b + (k - Suc j) = b + (k - j)"
      "i < i + (k - j)" by arith+
    then show ?thesis using k 3 that [of "i + (k - j)"] by (simp add: nth_fill)
  qed (use k assms in \<open>simp_all add: nth_fill\<close>)
qed

lemma spent_step:
  assumes "sts ! i = Some (oid, v)" "i < length sts"
  shows "spent mf (Suc i) n (sts[i := Some (oid, mf v)]) = spent mf i (Suc n) sts"
  by (rule nth_equalityI) (use assms in \<open>auto simp: nth_spent nth_list_update\<close>)

lemma upt_shift: "Constructed b # map Constructed [Suc b..<Suc (b + n)] = map Constructed [b..<b + Suc n]"
  by (simp add: upt_conv_Cons)

lemma uninitialized_copy_n_closed:
  assumes "s \<noteq> d"
    and "i + n \<le> length (m_storage (mem w s))"
    and "\<forall>k<n. m_storage (mem w s) ! (i + k) \<noteq> None"
    and "j + n \<le> length (m_storage (mem w d))"
  shows "m_storage (mem (uninitialized_copy_n (s, i) n (d, j) w) d) =
           fill i j n (next_oid w) (m_storage (mem w s)) (m_storage (mem w d)) \<and>
         next_oid (uninitialized_copy_n (s, i) n (d, j) w) = next_oid w + n \<and>
         trace (uninitialized_copy_n (s, i) n (d, j) w) =
           trace w @ map Constructed [next_oid w..<next_oid w + n] \<and>
         ub (uninitialized_copy_n (s, i) n (d, j) w) = ub w"
  using assms
proof (induction n arbitrary: i j w)
  case 0
  then show ?case by simp
next
  case (Suc n)
  let ?sts = "m_storage (mem w s)" and ?std = "m_storage (mem w d)"
  from Suc.prems(3) [rule_format, of 0] obtain oid v where sv: "?sts ! i = Some (oid, v)"
    by auto
  have i: "i < length ?sts" and j: "j < length ?std" using Suc.prems by simp_all
  let ?w1 = "copy_construct (d, j) (s, i) w"
  have w1: "?w1 = placement_new (d, j) v w"
    using sv i by (simp add: copy_construct_def slot_eq)
  have g1: "next_oid ?w1 = Suc (next_oid w)" "trace ?w1 = trace w @ [Constructed (next_oid w)]"
    "ub ?w1 = ub w"
    using placement_new_ghost [of "(d, j)" w v] j by (simp_all add: w1)
  have s1: "m_storage (mem ?w1 s) = ?sts" "m_storage (mem ?w1 d) = ?std[j := Some (next_oid w, v)]"
    using Suc.prems(1) by (simp_all add: w1)
  have "\<forall>k<n. m_storage (mem ?w1 s) ! (Suc i + k) \<noteq> None"
    using Suc.prems(3) by (auto simp: s1 dest: spec [of _ "Suc k" for k])
  with Suc.prems have IH:
    "m_storage (mem (uninitialized_copy_n (s, Suc i) n (d, Suc j) ?w1) d) =
           fill (Suc i) (Suc j) n (next_oid ?w1) (m_storage (mem ?w1 s)) (m_storage (mem ?w1 d)) \<and>
         next_oid (uninitialized_copy_n (s, Suc i) n (d, Suc j) ?w1) = next_oid ?w1 + n \<and>
         trace (uninitialized_copy_n (s, Suc i) n (d, Suc j) ?w1) =
           trace ?w1 @ map Constructed [next_oid ?w1..<next_oid ?w1 + n] \<and>
         ub (uninitialized_copy_n (s, Suc i) n (d, Suc j) ?w1) = ub ?w1"
    by (intro Suc.IH) (simp_all add: s1)
  show ?case
    using IH fill_step [OF sv j, of ?sts n "next_oid w"]
    by (simp add: ptr_add_def g1 s1 upt_shift del: upt_Suc)
qed

lemma move_construct_other [simp]:
  "a \<noteq> fst d \<Longrightarrow> a \<noteq> fst s \<Longrightarrow>
     m_storage (mem (move_construct mf d s w) a) = m_storage (mem w a)"
  by (simp add: move_construct_def split: option.splits)

lemma uninitialized_move_n_other [simp]:
  "a \<noteq> fst d_first \<Longrightarrow> a \<noteq> fst first \<Longrightarrow>
     m_storage (mem (uninitialized_move_n mf first n d_first w) a) = m_storage (mem w a)"
  by (induction n arbitrary: first d_first w) (simp_all add: ptr_add_def)

lemma uninitialized_move_n_closed:
  assumes "s \<noteq> d"
    and "i + n \<le> length (m_storage (mem w s))"
    and "\<forall>k<n. m_storage (mem w s) ! (i + k) \<noteq> None"
    and "j + n \<le> length (m_storage (mem w d))"
  shows "m_storage (mem (uninitialized_move_n mf (s, i) n (d, j) w) d) =
           fill i j n (next_oid w) (m_storage (mem w s)) (m_storage (mem w d)) \<and>
         m_storage (mem (uninitialized_move_n mf (s, i) n (d, j) w) s) =
           spent mf i n (m_storage (mem w s)) \<and>
         next_oid (uninitialized_move_n mf (s, i) n (d, j) w) = next_oid w + n \<and>
         trace (uninitialized_move_n mf (s, i) n (d, j) w) =
           trace w @ map Constructed [next_oid w..<next_oid w + n] \<and>
         ub (uninitialized_move_n mf (s, i) n (d, j) w) = ub w"
  using assms
proof (induction n arbitrary: i j w)
  case 0
  then show ?case by simp
next
  case (Suc n)
  let ?sts = "m_storage (mem w s)" and ?std = "m_storage (mem w d)"
  from Suc.prems(3) [rule_format, of 0] obtain oid v where sv: "?sts ! i = Some (oid, v)"
    by auto
  have i: "i < length ?sts" and j: "j < length ?std" using Suc.prems by simp_all
  let ?w0 = "put_slot (s, i) (Some (oid, mf v)) w"
  let ?w1 = "move_construct mf (d, j) (s, i) w"
  have w1: "?w1 = placement_new (d, j) v ?w0"
    using sv i by (simp add: move_construct_def slot_eq)
  have "snd (d, j) < length (m_storage (mem ?w0 (fst (d, j))))"
    using j Suc.prems(1) by simp
  from placement_new_ghost [OF this, of v]
  have g1: "next_oid ?w1 = Suc (next_oid w)" "trace ?w1 = trace w @ [Constructed (next_oid w)]"
    "ub ?w1 = ub w"
    by (simp_all add: w1)
  have s1: "m_storage (mem ?w1 s) = ?sts[i := Some (oid, mf v)]"
    "m_storage (mem ?w1 d) = ?std[j := Some (next_oid w, v)]"
    using Suc.prems(1) by (simp_all add: w1)
  have "\<forall>k<n. m_storage (mem ?w1 s) ! (Suc i + k) \<noteq> None"
    using Suc.prems(3) by (auto simp: s1 dest: spec [of _ "Suc k" for k])
  with Suc.prems have IH:
    "m_storage (mem (uninitialized_move_n mf (s, Suc i) n (d, Suc j) ?w1) d) =
           fill (Suc i) (Suc j) n (next_oid ?w1) (m_storage (mem ?w1 s)) (m_storage (mem ?w1 d)) \<and>
         m_storage (mem (uninitialized_move_n mf (s, Suc i) n (d, Suc j) ?w1) s) =
           spent mf (Suc i) n (m_storage (mem ?w1 s)) \<and>
         next_oid (uninitialized_move_n mf (s, Suc i) n (d, Suc j) ?w1) = next_oid ?w1 + n \<and>
         trace (uninitialized_move_n mf (s, Suc i) n (d, Suc j) ?w1) =
           trace ?w1 @ map Constructed [next_oid ?w1..<next_oid ?w1 + n] \<and>
         ub (uninitialized_move_n mf (s, Suc i) n (d, Suc j) ?w1) = ub ?w1"
    by (intro Suc.IH) (simp_all add: s1)
  have "fill (Suc i) (Suc j) n (Suc (next_oid w)) (?sts[i := Some (oid, mf v)])
          (?std[j := Some (next_oid w, v)]) = fill i j (Suc n) (next_oid w) ?sts ?std"
    by (rule fill_step [OF sv j]) simp
  then show ?case
    using IH spent_step [OF sv i, of mf n]
    by (simp add: ptr_add_def g1 s1 upt_shift del: upt_Suc)
qed

lemma fill_prefix:
  "n \<le> length std \<Longrightarrow> i < n \<Longrightarrow> fill 0 0 n b sts std ! i = reid (b + i) (sts ! i)"
  by (simp add: nth_fill)

lemma spent_prefix:
  "n \<le> length sts \<Longrightarrow> i < n \<Longrightarrow> spent mf 0 n sts ! i = residue mf (sts ! i)"
  by (simp add: nth_spent)

lemma oids_residue: "oids (map (residue mf) xs) = oids xs"
  by (induction xs rule: oids.induct) simp_all

lemma take_spent: "n \<le> length sts \<Longrightarrow> take n (spent mf 0 n sts) = map (residue mf) (take n sts)"
  by (rule nth_equalityI) (simp_all add: nth_spent)

section \<open>Copy construction and copy assignment\<close>

lemma raw_fields [simp]:
  "m_size (raw Capacity n) = n" "m_storage (raw Capacity n) = replicate Capacity None"
  by (simp_all add: raw_def)

lemma copy_ctor_frame:
  "m_size (mem (copy_ctor Capacity this other w) a) =
     (if a = this then m_size (mem w other) else m_size (mem w a))"
  "a \<noteq> this \<Longrightarrow> m_storage (mem (copy_ctor Capacity this other w) a) = m_storage (mem w a)"
  by (simp_all add: copy_ctor_def Let_def data_def begin_sv_def)

lemma copy_assign_frame:
  "this \<noteq> other \<Longrightarrow> m_size (mem (copy_assign this other w) a) =
     (if a = this then m_size (mem w other) else m_size (mem w a))"
  "a \<noteq> this \<Longrightarrow> m_storage (mem (copy_assign this other w) a) = m_storage (mem w a)"
  by (simp_all add: copy_assign_def Let_def data_def begin_sv_def)

lemma copy_ctor_closed:
  assumes "this \<noteq> other" "wf Capacity (mem w other)"
  shows "m_storage (mem (copy_ctor Capacity this other w) this) =
           fill 0 0 (m_size (mem w other)) (next_oid w) (m_storage (mem w other))
             (replicate Capacity None) \<and>
         next_oid (copy_ctor Capacity this other w) = next_oid w + m_size (mem w other) \<and>
         trace (copy_ctor Capacity this other w) =
           trace w @ map Constructed [next_oid w..<next_oid w + m_size (mem w other)] \<and>
         ub (copy_ctor Capacity this other w) = ub w"
proof -
  let ?w1 = "w\<lparr>mem := (mem w)(this := raw Capacity (m_size (mem w other)))\<rparr>"
  have len: "length (m_storage (mem w other)) = Capacity" "m_size (mem w other) \<le> Capacity"
    using assms(2) by (simp_all add: wf_def)
  have live: "\<forall>k<m_size (mem w other). m_storage (mem w other) ! (0 + k) \<noteq> None"
    using wf_nth [OF assms(2)] by auto
  have "other \<noteq> this" using assms(1) by simp
  from uninitialized_copy_n_closed [OF this, of 0 "m_size (mem w other)" ?w1 0] len live assms(1)
  show ?thesis
    by (simp add: copy_ctor_def Let_def data_def begin_sv_def)
qed

lemma copy_assign_closed:
  assumes "this \<noteq> other" "wf Capacity (mem w other)" "wf Capacity (mem w this)"
  shows "m_storage (mem (copy_assign this other w) this) =
           fill 0 0 (m_size (mem w other)) (next_oid w) (m_storage (mem w other))
             (blank 0 (m_size (mem w this)) (m_storage (mem w this))) \<and>
         next_oid (copy_assign this other w) = next_oid w + m_size (mem w other) \<and>
         trace (copy_assign this other w) =
           trace w @ map Destroyed (oids (elems (mem w this))) @
             map Constructed [next_oid w..<next_oid w + m_size (mem w other)] \<and>
         ub (copy_assign this other w) = ub w"
proof -
  let ?w2 = "set_size this (m_size (mem (clear this w) other)) (clear this w)"
  have len: "length (m_storage (mem w other)) = Capacity" "m_size (mem w other) \<le> Capacity"
    "length (m_storage (mem w this)) = Capacity"
    using assms(2,3) by (simp_all add: wf_def)
  have live: "\<forall>k<m_size (mem w other). m_storage (mem w other) ! (0 + k) \<noteq> None"
    using wf_nth [OF assms(2)] by auto
  have "other \<noteq> this" using assms(1) by simp
  from uninitialized_copy_n_closed [OF this, of 0 "m_size (mem w other)" ?w2 0] len live assms(1)
    clear_ub [OF assms(3)]
  show ?thesis
    by (simp add: copy_assign_def Let_def data_def begin_sv_def)
qed

lemma filled_live:
  assumes "wf Capacity sv" "length std = Capacity" "i < m_size sv"
  shows "\<exists>oid v. m_storage sv ! i = Some (oid, v) \<and>
           fill 0 0 (m_size sv) b (m_storage sv) std ! i = Some (b + i, v)"
proof -
  from wf_nth [OF assms(1,3)] obtain oid v where "m_storage sv ! i = Some (oid, v)" by auto
  moreover have "m_size sv \<le> length std" using assms(1,2) by (simp add: wf_def)
  ultimately show ?thesis using assms(3) by (simp add: fill_prefix)
qed

lemma wf_filled:
  assumes "wf Capacity sv" "length std = Capacity"
    and "m_storage sv' = fill 0 0 (m_size sv) b (m_storage sv) std" "m_size sv' = m_size sv"
  shows "wf Capacity sv'"
proof (rule wfI)
  show "length (m_storage sv') = Capacity" using assms by simp
  show "m_size sv' \<le> Capacity" using assms by (simp add: wf_def)
  fix i assume "i < m_size sv'"
  then have "i < m_size sv" using assms(4) by simp
  from filled_live [OF assms(1,2) this, of b] show "m_storage sv' ! i \<noteq> None"
    using assms(3) by auto
qed

section \<open>Mutations of one container\<close>

lemma assign_through_fields [simp]:
  "m_size (mem (assign_through p x w) a) = m_size (mem w a)"
  "m_storage (mem (assign_through p x w) a) =
     (if a = fst p then (m_storage (mem w a))[snd p := map_option (\<lambda>(oid, old). (oid, x)) (slot w p)]
      else m_storage (mem w a))"
  "next_oid (assign_through p x w) = next_oid w"
  "trace (assign_through p x w) = trace w"
  "ub (assign_through p x w) = (ub w \<or> slot w p = None)"
proof -
  show "m_storage (mem (assign_through p x w) a) =
     (if a = fst p then (m_storage (mem w a))[snd p := map_option (\<lambda>(oid, old). (oid, x)) (slot w p)]
      else m_storage (mem w a))"
  proof (cases "snd p < length (m_storage (mem w (fst p)))")
    case True
    then show ?thesis
      by (cases "m_storage (mem w (fst p)) ! snd p")
        (auto simp: assign_through_def slot_def list_update_same_conv [THEN iffD2, symmetric])
  next
    case False
    then show ?thesis
      by (simp add: assign_through_def slot_def list_update_beyond)
  qed
qed (auto simp: assign_through_def split: option.splits)

lemma mutate_other:
  "a \<noteq> this \<Longrightarrow> mem (snd (mutate Capacity this m w)) a = mem w a"
proof (cases m)
  case (Insert x)
  then show ?thesis if "a \<noteq> this"
    using that by (simp add: split_beta insert_back_eq push_back_other)
next
  case PopBack
  then show ?thesis if "a \<noteq> this"
    using that by (cases "m_size (mem w this) = 0")
      (auto simp: split_beta pop_back_empty pop_back_fields intro!: static_vector.equality)
next
  case Clear
  then show ?thesis if "a \<noteq> this"
    using that by (auto intro!: static_vector.equality)
next
  case (Write pos x)
  then show ?thesis if "a \<noteq> this"
    using that by (auto intro!: static_vector.equality simp: subscript_def data_def ptr_add_def)
qed

lemma mutate_all_other:
  "a \<noteq> this \<Longrightarrow> mem (snd (mutate_all Capacity this ms w)) a = mem w a"
  by (induction ms arbitrary: w) (simp_all add: split_beta mutate_other)

text \<open>
  C3 (copy round-trip). Let \<open>C\<close> (at \<open>other\<close>) satisfy the representation invariant and
  let \<open>this\<close> be another object. After copy construction of \<open>this\<close> from \<open>C\<close>, and after
  copy assignment \<open>this = C\<close> (for which \<open>this\<close> satisfies the invariant too), the copy
  has the size of \<open>C\<close>, slot \<open>i\<close> of the copy holds a new object with the value of the
  object in slot \<open>i\<close> of \<open>C\<close> for every \<open>i < C.size()\<close>, \<open>C\<close> is unchanged, and no undefined
  behaviour is raised. Whatever sequence of insertions, \<open>pop_back\<close>, \<open>clear\<close> and element
  writes is then applied to the copy, \<open>C\<close> (its size and its storage) stays as it was.
\<close>

theorem copy_round_trip:
  fixes w :: "'a world"
  shows
   "(this \<noteq> other \<and> wf Capacity (mem w other) \<longrightarrow>
       size_sv (copy_ctor Capacity this other w) this = size_sv w other \<and>
       (\<forall>i<size_sv w other. \<exists>oid v.
          m_storage (mem w other) ! i = Some (oid, v) \<and>
          m_storage (mem (copy_ctor Capacity this other w) this) ! i = Some (next_oid w + i, v)) \<and>
       wf Capacity (mem (copy_ctor Capacity this other w) this) \<and>
       mem (copy_ctor Capacity this other w) other = mem w other \<and>
       ub (copy_ctor Capacity this other w) = ub w \<and>
       mem (snd (mutate_all Capacity this ms (copy_ctor Capacity this other w))) other =
         mem w other) \<and>
    (this \<noteq> other \<and> wf Capacity (mem w other) \<and> wf Capacity (mem w this) \<longrightarrow>
       size_sv (copy_assign this other w) this = size_sv w other \<and>
       (\<forall>i<size_sv w other. \<exists>oid v.
          m_storage (mem w other) ! i = Some (oid, v) \<and>
          m_storage (mem (copy_assign this other w) this) ! i = Some (next_oid w + i, v)) \<and>
       wf Capacity (mem (copy_assign this other w) this) \<and>
       mem (copy_assign this other w) other = mem w other \<and>
       ub (copy_assign this other w) = ub w \<and>
       mem (snd (mutate_all Capacity this ms (copy_assign this other w))) other =
         mem w other)"
proof (intro conjI impI)
  assume a: "this \<noteq> other \<and> wf Capacity (mem w other)"
  then have ne: "this \<noteq> other" "other \<noteq> this" and wo: "wf Capacity (mem w other)" by auto
  let ?w' = "copy_ctor Capacity this other w"
  note c = copy_ctor_closed [OF ne(1) wo]
  show "size_sv ?w' this = size_sv w other"
    by (simp add: size_sv_def copy_ctor_frame)
  show "\<forall>i<size_sv w other. \<exists>oid v.
          m_storage (mem w other) ! i = Some (oid, v) \<and>
          m_storage (mem ?w' this) ! i = Some (next_oid w + i, v)"
    using filled_live [OF wo, of "replicate Capacity None" _ "next_oid w"] c
    by (simp add: size_sv_def)
  show "wf Capacity (mem ?w' this)"
    by (rule wf_filled [OF wo, of "replicate Capacity None" _ "next_oid w"])
       (simp_all add: c copy_ctor_frame)
  show o: "mem ?w' other = mem w other"
    using ne by (intro static_vector.equality) (simp_all add: copy_ctor_frame)
  show "ub ?w' = ub w" by (simp add: c)
  show "mem (snd (mutate_all Capacity this ms ?w')) other = mem w other"
    using ne o by (simp add: mutate_all_other)
next
  assume a: "this \<noteq> other \<and> wf Capacity (mem w other) \<and> wf Capacity (mem w this)"
  then have ne: "this \<noteq> other" "other \<noteq> this" and wo: "wf Capacity (mem w other)"
    and wt: "wf Capacity (mem w this)" by auto
  let ?w' = "copy_assign this other w"
  let ?std = "blank 0 (m_size (mem w this)) (m_storage (mem w this))"
  note c = copy_assign_closed [OF ne(1) wo wt]
  have len: "length ?std = Capacity" using wt by (simp add: wf_def)
  show "size_sv ?w' this = size_sv w other"
    using ne by (simp add: size_sv_def copy_assign_frame)
  show "\<forall>i<size_sv w other. \<exists>oid v.
          m_storage (mem w other) ! i = Some (oid, v) \<and>
          m_storage (mem ?w' this) ! i = Some (next_oid w + i, v)"
    using filled_live [OF wo len, of _ "next_oid w"] c
    by (simp add: size_sv_def)
  show "wf Capacity (mem ?w' this)"
    using ne by (intro wf_filled [OF wo len, of _ "next_oid w"]) (simp_all add: c copy_assign_frame)
  show o: "mem ?w' other = mem w other"
    using ne by (intro static_vector.equality) (simp_all add: copy_assign_frame)
  show "ub ?w' = ub w" by (simp add: c)
  show "mem (snd (mutate_all Capacity this ms ?w')) other = mem w other"
    using ne o by (simp add: mutate_all_other)
qed

theorem copy_round_trip_witness:
  "(1::nat) \<noteq> 0 \<and> wf 3 (mem sample 0) \<and> wf 3 (mem sample 1) \<and>
   size_sv (copy_ctor 3 1 0 sample) 1 = 2 \<and>
   m_storage (mem (copy_ctor 3 1 0 sample) 1) ! 0 = Some (2, 10) \<and>
   m_storage (mem (copy_ctor 3 1 0 sample) 1) ! 1 = Some (3, 20) \<and>
   mem (copy_ctor 3 1 0 sample) 0 = mem sample 0 \<and>
   mem (snd (mutate_all 3 1 [Write 0 5, PopBack, Insert (PushCopy 7), Clear]
          (copy_ctor 3 1 0 sample))) 0 = mem sample 0 \<and>
   size_sv (copy_assign 1 0 sample) 1 = 2 \<and>
   m_storage (mem (copy_assign 1 0 sample) 1) ! 0 = Some (2, 10) \<and>
   m_storage (mem (copy_assign 1 0 sample) 1) ! 1 = Some (3, 20) \<and>
   mem (copy_assign 1 0 sample) 0 = mem sample 0 \<and>
   mem (snd (mutate_all 3 1 [Write 0 5, PopBack, Insert (PushCopy 7), Clear]
          (copy_assign 1 0 sample))) 0 = mem sample 0"
proof -
  have h1: "(1::nat) \<noteq> 0 \<and> wf 3 (mem sample 0)" by simp
  have h2: "(1::nat) \<noteq> 0 \<and> wf 3 (mem sample 0) \<and> wf 3 (mem sample 1)" by simp
  note t = copy_round_trip [of 1 0 3 sample "[Write 0 5, PopBack, Insert (PushCopy 7), Clear]"]
  note t1 = t [THEN conjunct1, THEN mp, OF h1]
  note t2 = t [THEN conjunct2, THEN mp, OF h2]
  have i: "(0::nat) < size_sv sample 0" "(1::nat) < size_sv sample 0" by (simp_all add: size_sv_def)
  note p1 = t1 [THEN conjunct2, THEN conjunct1, rule_format]
  note p2 = t2 [THEN conjunct2, THEN conjunct1, rule_format]
  from t1 t2 p1 [OF i(1)] p1 [OF i(2)] p2 [OF i(1)] p2 [OF i(2)] h2
  show ?thesis by (simp add: size_sv_def)
qed

section \<open>Move construction and move assignment\<close>

lemma move_ctor_frame:
  "this \<noteq> other \<Longrightarrow> m_size (mem (move_ctor mf Capacity this other w) a) =
     (if a = this then m_size (mem w other) else if a = other then 0 else m_size (mem w a))"
  "a \<noteq> this \<Longrightarrow> a \<noteq> other \<Longrightarrow>
     m_storage (mem (move_ctor mf Capacity this other w) a) = m_storage (mem w a)"
  by (simp_all add: move_ctor_def Let_def data_def begin_sv_def)

lemma move_ctor_closed:
  assumes "this \<noteq> other" "wf Capacity (mem w other)"
  shows "m_storage (mem (move_ctor mf Capacity this other w) this) =
           fill 0 0 (m_size (mem w other)) (next_oid w) (m_storage (mem w other))
             (replicate Capacity None) \<and>
         m_storage (mem (move_ctor mf Capacity this other w) other) =
           spent mf 0 (m_size (mem w other)) (m_storage (mem w other)) \<and>
         next_oid (move_ctor mf Capacity this other w) = next_oid w + m_size (mem w other) \<and>
         trace (move_ctor mf Capacity this other w) =
           trace w @ map Constructed [next_oid w..<next_oid w + m_size (mem w other)] \<and>
         ub (move_ctor mf Capacity this other w) = ub w"
proof -
  let ?w1 = "w\<lparr>mem := (mem w)(this := raw Capacity (m_size (mem w other)))\<rparr>"
  have len: "length (m_storage (mem w other)) = Capacity" "m_size (mem w other) \<le> Capacity"
    using assms(2) by (simp_all add: wf_def)
  have live: "\<forall>k<m_size (mem w other). m_storage (mem w other) ! (0 + k) \<noteq> None"
    using wf_nth [OF assms(2)] by auto
  have "other \<noteq> this" using assms(1) by simp
  from uninitialized_move_n_closed [OF this, of 0 "m_size (mem w other)" ?w1 0 mf] len live assms(1)
  show ?thesis
    by (simp add: move_ctor_def Let_def data_def begin_sv_def)
qed

lemma wf_spent:
  assumes "wf Capacity sv" "m_storage sv' = spent mf 0 (m_size sv) (m_storage sv)"
    "m_size sv' \<le> m_size sv"
  shows "wf Capacity sv'"
proof (rule wfI)
  show "length (m_storage sv') = Capacity" using assms by (simp add: wf_def)
  show "m_size sv' \<le> Capacity" using assms by (simp add: wf_def)
  fix i assume "i < m_size sv'"
  then have i: "i < m_size sv" using assms(3) by simp
  from wf_nth [OF assms(1) this] obtain oid v where "m_storage sv ! i = Some (oid, v)" by auto
  then show "m_storage sv' ! i \<noteq> None"
    using i wf_size [OF assms(1)] by (simp add: assms(2) spent_prefix)
qed

lemma move_assign_frame:
  "this \<noteq> other \<Longrightarrow> m_size (mem (move_assign mf this other w) a) =
     (if a = other then 0 else if a = this then m_size (mem w other) else m_size (mem w a))"
  "a \<noteq> this \<Longrightarrow> a \<noteq> other \<Longrightarrow>
     m_storage (mem (move_assign mf this other w) a) = m_storage (mem w a)"
  by (simp_all add: move_assign_def Let_def data_def begin_sv_def)

lemma move_assign_closed:
  assumes "this \<noteq> other" "wf Capacity (mem w other)" "wf Capacity (mem w this)"
  shows "m_storage (mem (move_assign mf this other w) this) =
           fill 0 0 (m_size (mem w other)) (next_oid w) (m_storage (mem w other))
             (blank 0 (m_size (mem w this)) (m_storage (mem w this))) \<and>
         m_storage (mem (move_assign mf this other w) other) =
           blank 0 (m_size (mem w other))
             (spent mf 0 (m_size (mem w other)) (m_storage (mem w other))) \<and>
         next_oid (move_assign mf this other w) = next_oid w + m_size (mem w other) \<and>
         trace (move_assign mf this other w) =
           trace w @ map Destroyed (oids (elems (mem w this))) @
             map Constructed [next_oid w..<next_oid w + m_size (mem w other)] @
             map Destroyed (oids (elems (mem w other))) \<and>
         ub (move_assign mf this other w) = ub w"
proof -
  let ?k = "m_size (mem w other)"
  let ?w2 = "set_size this ?k (clear this w)"
  let ?w3 = "uninitialized_move_n mf (other, 0) ?k (this, 0) ?w2"
  have ne: "other \<noteq> this" using assms(1) by simp
  have len: "length (m_storage (mem w other)) = Capacity" "?k \<le> Capacity"
    "length (m_storage (mem w this)) = Capacity"
    using assms(2,3) by (simp_all add: wf_def)
  have live: "\<forall>k<?k. m_storage (mem w other) ! (0 + k) \<noteq> None"
    using wf_nth [OF assms(2)] by auto
  have w2: "m_storage (mem ?w2 other) = m_storage (mem w other)"
    "m_storage (mem ?w2 this) = blank 0 (m_size (mem w this)) (m_storage (mem w this))"
    "next_oid ?w2 = next_oid w" "ub ?w2 = ub w"
    "trace ?w2 = trace w @ map Destroyed (oids (elems (mem w this)))"
    using assms(1) clear_ub [OF assms(3)] by simp_all
  have c3: "m_storage (mem ?w3 this) =
           fill 0 0 ?k (next_oid w) (m_storage (mem w other))
             (blank 0 (m_size (mem w this)) (m_storage (mem w this)))"
    "m_storage (mem ?w3 other) = spent mf 0 ?k (m_storage (mem w other))"
    "next_oid ?w3 = next_oid w + ?k"
    "trace ?w3 = trace w @ map Destroyed (oids (elems (mem w this))) @
        map Constructed [next_oid w..<next_oid w + ?k]"
    "ub ?w3 = ub w"
    using uninitialized_move_n_closed [OF ne, of 0 ?k ?w2 0 mf] len live ne
    by (simp_all add: w2 clear_ub [OF assms(3)])
  have s3: "m_size (mem ?w3 other) = ?k" using assms(1) by simp
  have wf3: "wf Capacity (mem ?w3 other)"
    by (rule wf_spent [OF assms(2), of _ mf]) (simp_all add: c3 s3)
  have e3: "oids (elems (mem ?w3 other)) = oids (elems (mem w other))"
    using len ne by (simp add: elems_def c3 s3 take_spent oids_residue)
  have r: "move_assign mf this other w = clear other ?w3"
    using assms(1) ne by (simp add: move_assign_def Let_def data_def begin_sv_def)
  show ?thesis
    unfolding r using assms(1) clear_ub [OF wf3] e3
    by (simp add: c3 s3)
qed

text \<open>
  C5 (move assignment). For distinct objects that satisfy the representation invariant,
  \<open>dst = std::move(src)\<close> first runs the destructor of every live element of \<open>dst\<close> (all
  \<open>dst.size()\<close> of them, in index order), then move-constructs one new object in \<open>dst\<close>
  per element of \<open>src\<close>, in order, slot \<open>i\<close> of \<open>dst\<close> getting the value of slot \<open>i\<close> of
  \<open>src\<close>, and last runs the destructors of the moved-from objects of \<open>src\<close>. Afterwards
  \<open>dst.size()\<close> is the former \<open>src.size()\<close>, \<open>src.size()\<close> is 0, both satisfy the invariant
  and no undefined behaviour was raised.
\<close>

theorem move_assignment_contract:
  fixes w :: "'a world"
  shows
   "this \<noteq> other \<and> wf Capacity (mem w this) \<and> wf Capacity (mem w other) \<longrightarrow>
      trace (move_assign mf this other w) =
        trace w @ map Destroyed (oids (elems (mem w this))) @
          map Constructed [next_oid w..<next_oid w + size_sv w other] @
          map Destroyed (oids (elems (mem w other))) \<and>
      length (oids (elems (mem w this))) = size_sv w this \<and>
      size_sv (move_assign mf this other w) this = size_sv w other \<and>
      (\<forall>i<size_sv w other. \<exists>oid v.
         m_storage (mem w other) ! i = Some (oid, v) \<and>
         m_storage (mem (move_assign mf this other w) this) ! i = Some (next_oid w + i, v)) \<and>
      size_sv (move_assign mf this other w) other = 0 \<and>
      wf Capacity (mem (move_assign mf this other w) this) \<and>
      wf Capacity (mem (move_assign mf this other w) other) \<and>
      ub (move_assign mf this other w) = ub w"
proof (intro conjI impI)
  assume a: "this \<noteq> other \<and> wf Capacity (mem w this) \<and> wf Capacity (mem w other)"
  then have ne: "this \<noteq> other" "other \<noteq> this" and wo: "wf Capacity (mem w other)"
    and wt: "wf Capacity (mem w this)" by auto
  let ?w' = "move_assign mf this other w"
  let ?std = "blank 0 (m_size (mem w this)) (m_storage (mem w this))"
  note c = move_assign_closed [OF ne(1) wo wt, of mf]
  have len: "length ?std = Capacity" using wt by (simp add: wf_def)
  show "trace ?w' = trace w @ map Destroyed (oids (elems (mem w this))) @
          map Constructed [next_oid w..<next_oid w + size_sv w other] @
          map Destroyed (oids (elems (mem w other)))"
    by (simp add: c size_sv_def)
  have "list_all (\<lambda>x. x \<noteq> None) (elems (mem w this))"
    using wt by (simp add: wf_def elems_def)
  from oids_all_live [OF this] wf_size [OF wt]
  show "length (oids (elems (mem w this))) = size_sv w this"
    by (simp add: elems_def size_sv_def)
  show "size_sv ?w' this = size_sv w other"
    using ne by (simp add: size_sv_def move_assign_frame)
  show "\<forall>i<size_sv w other. \<exists>oid v.
          m_storage (mem w other) ! i = Some (oid, v) \<and>
          m_storage (mem ?w' this) ! i = Some (next_oid w + i, v)"
    using filled_live [OF wo len, of _ "next_oid w"] c
    by (simp add: size_sv_def)
  show "size_sv ?w' other = 0"
    using ne by (simp add: size_sv_def move_assign_frame)
  show "wf Capacity (mem ?w' this)"
    using ne by (intro wf_filled [OF wo len, of _ "next_oid w"]) (simp_all add: c move_assign_frame)
  show "wf Capacity (mem ?w' other)"
    using ne wo by (simp add: wf_def c move_assign_frame)
  show "ub ?w' = ub w" by (simp add: c)
qed

theorem move_assignment_contract_witness:
  "(1::nat) \<noteq> 0 \<and> wf 3 (mem sample2 1) \<and> wf 3 (mem sample2 0) \<and>
   trace (move_assign (\<lambda>v. v) 1 0 sample2) =
     [Constructed 0, Constructed 1, Constructed 2,
      Destroyed 2, Constructed 3, Constructed 4, Destroyed 0, Destroyed 1] \<and>
   size_sv (move_assign (\<lambda>v. v) 1 0 sample2) 1 = 2 \<and>
   m_storage (mem (move_assign (\<lambda>v. v) 1 0 sample2) 1) ! 0 = Some (3, 10) \<and>
   m_storage (mem (move_assign (\<lambda>v. v) 1 0 sample2) 1) ! 1 = Some (4, 20) \<and>
   size_sv (move_assign (\<lambda>v. v) 1 0 sample2) 0 = 0 \<and>
   ub (move_assign (\<lambda>v. v) 1 0 sample2) = False"
proof -
  have h: "(1::nat) \<noteq> 0 \<and> wf 3 (mem sample2 1) \<and> wf 3 (mem sample2 0)" by simp
  note t = move_assignment_contract [of 1 0 3 sample2 "\<lambda>v. v", THEN mp, OF h]
  have i: "(0::nat) < size_sv sample2 0" "(1::nat) < size_sv sample2 0" by (simp_all add: size_sv_def)
  note p = t [THEN conjunct2, THEN conjunct2, THEN conjunct2, THEN conjunct1, rule_format]
  from t p [OF i(1)] p [OF i(2)] h
  show ?thesis by (simp add: size_sv_def elems_def upt_conv_Cons)
qed

section \<open>Mutations see only the live elements\<close>

lemma same_view_iff:
  "same_view Capacity c w1 w2 \<longleftrightarrow>
     wf Capacity (mem w1 c) \<and> wf Capacity (mem w2 c) \<and> view w1 c = view w2 c"
  by (auto simp: same_view_def view_def)

lemma wf_mutate:
  assumes "wf Capacity (mem w c)"
  shows "wf Capacity (mem (snd (mutate Capacity c m w)) c)"
proof (cases m)
  case (Insert x)
  show ?thesis
  proof (cases "m_size (mem w c) < Capacity")
    case True
    have "wf Capacity (mem (snd (push_back Capacity c (inserted_value x) w)) c)"
    proof (rule wfI)
      fix i assume "i < m_size (mem (snd (push_back Capacity c (inserted_value x) w)) c)"
      then have "i < m_size (mem w c) \<or> i = m_size (mem w c)"
        using True by (simp add: push_back_ok) arith
      then show "m_storage (mem (snd (push_back Capacity c (inserted_value x) w)) c) ! i \<noteq> None"
        using True assms wf_nth [OF assms, of i]
        by (auto simp: push_back_ok wf_def nth_list_update)
    qed (use True assms in \<open>simp_all add: push_back_ok wf_def\<close>)
    then show ?thesis by (simp add: Insert split_beta insert_back_eq)
  next
    case False
    then show ?thesis using assms by (simp add: Insert split_beta insert_back_eq push_back_full)
  qed
next
  case PopBack
  show ?thesis
  proof (cases "m_size (mem w c) = 0")
    case True
    then show ?thesis using assms by (simp add: PopBack split_beta pop_back_empty)
  next
    case False
    then have pos: "0 < m_size (mem w c)" by simp
    have "wf Capacity (mem (snd (pop_back c w)) c)"
    proof (rule wfI)
      fix i assume "i < m_size (mem (snd (pop_back c w)) c)"
      then have "i < m_size (mem w c) - 1" by (simp add: pop_back_fields [OF pos])
      then show "m_storage (mem (snd (pop_back c w)) c) ! i \<noteq> None"
        using wf_nth [OF assms, of i] by (auto simp: pop_back_fields [OF pos] nth_list_update)
    qed (use assms in \<open>auto simp: pop_back_fields [OF pos] wf_def\<close>)
    then show ?thesis by (simp add: PopBack split_beta)
  qed
next
  case Clear
  then show ?thesis using assms by (simp add: wf_clear wf_def)
next
  case (Write pos x)
  have "wf Capacity (mem (assign_through (c, pos) x w) c)"
  proof (rule wfI)
    fix i assume "i < m_size (mem (assign_through (c, pos) x w) c)"
    then have i: "i < m_size (mem w c)" by simp
    from wf_nth [OF assms i] wf_size [OF assms] i
    show "m_storage (mem (assign_through (c, pos) x w) c) ! i \<noteq> None"
      by (auto simp: nth_list_update slot_eq)
  qed (use assms in \<open>simp_all add: wf_def\<close>)
  then show ?thesis by (simp add: Write subscript_def data_def ptr_add_def)
qed

lemma view_mutate:
  assumes "wf Capacity (mem w c)" "write_in_range c m w"
  shows "fst (mutate Capacity c m w) =
           (case m of
              Insert x \<Rightarrow> Some (if Capacity \<le> fst (view w c) then OutOfSpace else NoError)
            | PopBack \<Rightarrow> Some (if fst (view w c) = 0 then Empty else NoError)
            | Clear \<Rightarrow> None
            | Write pos x \<Rightarrow> None)"
    and "view (snd (mutate Capacity c m w)) c =
           (case view w c of (n, es, b, t, u) \<Rightarrow>
              (case m of
                 Insert x \<Rightarrow>
                   if Capacity \<le> n then (n, es, b, t, u)
                   else (Suc n, es @ [Some (b, inserted_value x)], Suc b, t @ [Constructed b], u)
               | PopBack \<Rightarrow>
                   if n = 0 then (n, es, b, t, u)
                   else (n - 1, butlast es, b, t @ map Destroyed (oids [last es]), u)
               | Clear \<Rightarrow> (0, [], b, t @ map Destroyed (oids es), u)
               | Write pos x \<Rightarrow>
                   (n, es[pos := map_option (\<lambda>(oid, old). (oid, x)) (es ! pos)], b, t, u)))"
proof -
  let ?n = "m_size (mem w c)" and ?st = "m_storage (mem w c)"
  have len: "length ?st = Capacity" "?n \<le> length ?st" using assms(1) by (simp_all add: wf_def)
  show "fst (mutate Capacity c m w) =
           (case m of
              Insert x \<Rightarrow> Some (if Capacity \<le> fst (view w c) then OutOfSpace else NoError)
            | PopBack \<Rightarrow> Some (if fst (view w c) = 0 then Empty else NoError)
            | Clear \<Rightarrow> None
            | Write pos x \<Rightarrow> None)"
    by (cases m)
       (simp_all add: view_def split_beta insert_back_eq push_back_full push_back_ok
          pop_back_empty pop_back_fields)
  show "view (snd (mutate Capacity c m w)) c =
           (case view w c of (n, es, b, t, u) \<Rightarrow>
              (case m of
                 Insert x \<Rightarrow>
                   if Capacity \<le> n then (n, es, b, t, u)
                   else (Suc n, es @ [Some (b, inserted_value x)], Suc b, t @ [Constructed b], u)
               | PopBack \<Rightarrow>
                   if n = 0 then (n, es, b, t, u)
                   else (n - 1, butlast es, b, t @ map Destroyed (oids [last es]), u)
               | Clear \<Rightarrow> (0, [], b, t @ map Destroyed (oids es), u)
               | Write pos x \<Rightarrow>
                   (n, es[pos := map_option (\<lambda>(oid, old). (oid, x)) (es ! pos)], b, t, u)))"
  proof (cases m)
    case (Insert x)
    then show ?thesis using len
      by (simp add: view_def split_beta insert_back_eq push_back_full push_back_ok
            push_back_ghost push_back_elems)
  next
    case PopBack
    show ?thesis
    proof (cases "?n = 0")
      case True
      then show ?thesis by (simp add: PopBack view_def split_beta pop_back_empty)
    next
      case False
      then have pos: "0 < ?n" by simp
      have r: "?n - 1 < length ?st" using pos len by arith
      have "take ?n ?st = take (?n - 1) ?st @ [?st ! (?n - 1)]"
        using take_Suc_conv_app_nth [OF r] pos by simp
      then have l: "last (elems (mem w c)) = ?st ! (?n - 1)"
        by (simp add: elems_def)
      from wf_nth [OF assms(1), of "?n - 1"] pos
      obtain oid v where s: "?st ! (?n - 1) = Some (oid, v)" by auto
      show ?thesis using pos len r l s
        by (simp add: PopBack view_def split_beta pop_back_fields [OF pos] slot_eq
              elems_def butlast_take)
    qed
  next
    case Clear
    then show ?thesis using clear_ub [OF assms(1)]
      by (simp add: view_def elems_def)
  next
    case (Write pos x)
    with assms(2) have p: "pos < ?n" by simp
    from wf_nth [OF assms(1) p] obtain oid v where s: "?st ! pos = Some (oid, v)" by auto
    show ?thesis using p len s
      by (simp add: Write view_def subscript_def data_def ptr_add_def slot_eq elems_def
            take_update_swap)
  qed
qed

lemma mutate_same_view:
  assumes "same_view Capacity c w1 w2" "write_in_range c m w1"
  shows "fst (mutate Capacity c m w1) = fst (mutate Capacity c m w2) \<and>
         same_view Capacity c (snd (mutate Capacity c m w1)) (snd (mutate Capacity c m w2)) \<and>
         write_in_range c m w2"
proof -
  from assms(1) have w: "wf Capacity (mem w1 c)" "wf Capacity (mem w2 c)"
    and v: "view w1 c = view w2 c" by (simp_all add: same_view_iff)
  have r2: "write_in_range c m w2"
    using assms(2) v by (cases m) (simp_all add: view_def)
  show ?thesis
    using view_mutate [OF w(1) assms(2)] view_mutate [OF w(2) r2] v r2
    by (simp add: same_view_iff wf_mutate [OF w(1)] wf_mutate [OF w(2)])
qed

lemma mutate_all_same_view:
  assumes "same_view Capacity c w1 w2" "writes_in_range Capacity c ms w1"
  shows "fst (mutate_all Capacity c ms w1) = fst (mutate_all Capacity c ms w2) \<and>
         same_view Capacity c (snd (mutate_all Capacity c ms w1))
           (snd (mutate_all Capacity c ms w2))"
  using assms
proof (induction ms arbitrary: w1 w2)
  case Nil
  then show ?case by simp
next
  case (Cons m ms)
  from Cons.prems have r: "write_in_range c m w1"
    and rs: "writes_in_range Capacity c ms (snd (mutate Capacity c m w1))" by simp_all
  note s = mutate_same_view [OF Cons.prems(1) r]
  from Cons.IH [OF s [THEN conjunct2, THEN conjunct1] rs] s
  show ?case by (simp add: split_beta)
qed

lemma same_view_observers:
  assumes "same_view Capacity c w1 w2"
  shows "size_sv w1 c = size_sv w2 c \<and> empty_sv w1 c = empty_sv w2 c \<and>
         at_if w1 c k = at_if w2 c k \<and> front_if w1 c = front_if w2 c \<and>
         back_if w1 c = back_if w2 c \<and>
         (k < size_sv w1 c \<longrightarrow> slot w1 (c, k) = slot w2 (c, k))"
proof -
  from assms have w: "wf Capacity (mem w1 c)" "wf Capacity (mem w2 c)"
    and n: "m_size (mem w1 c) = m_size (mem w2 c)"
    and e: "elems (mem w1 c) = elems (mem w2 c)" by (simp_all add: same_view_def)
  have "slot w1 (c, k) = slot w2 (c, k)" if k: "k < m_size (mem w1 c)"
  proof -
    have "slot w1 (c, k) = elems (mem w1 c) ! k"
      using k wf_size [OF w(1)] by (simp add: slot_eq elems_def)
    moreover have "slot w2 (c, k) = elems (mem w2 c) ! k"
      using k n wf_size [OF w(2)] by (simp add: slot_eq elems_def)
    ultimately show ?thesis using e by simp
  qed
  then show ?thesis
    using n by (simp add: size_sv_def empty_sv_def at_if_def front_if_def back_if_def)
qed

text \<open>
  C4 (move construction). Let \<open>C\<close> (at \<open>other\<close>) satisfy the representation invariant and
  hold \<open>k\<close> elements, and let \<open>this\<close> be another object. After move construction of
  \<open>this\<close> from \<open>C\<close>: \<open>this\<close> has size \<open>k\<close>; its slot \<open>i\<close> holds a new object with the value
  of the object in slot \<open>i\<close> of \<open>C\<close>, for every \<open>i < k\<close>, the \<open>k\<close> constructions made in
  index order; \<open>C\<close> has size 0 and satisfies the invariant; no undefined behaviour was
  raised. \<open>C\<close> then behaves as a freshly default-constructed container does: any run of
  insertions, \<open>pop_back\<close>, \<open>clear\<close> and element writes (the writes within the precondition
  of \<open>operator[]\<close>) returns the same result codes on the moved-from \<open>C\<close> as on a container
  default-constructed in its place, and leads to the same size, the same live elements,
  the same trace of constructor and destructor calls, and the same flag; so \<open>size()\<close>,
  \<open>empty()\<close>, \<open>at_if\<close>, \<open>front_if\<close> and \<open>back_if\<close> answer the same afterwards, and the
  pointers they return point at equal objects.
\<close>

theorem move_construction_round_trip:
  fixes w :: "'a world"
  shows
   "this \<noteq> other \<and> wf Capacity (mem w other) \<longrightarrow>
      size_sv (move_ctor mf Capacity this other w) this = size_sv w other \<and>
      (\<forall>i<size_sv w other. \<exists>oid v.
         m_storage (mem w other) ! i = Some (oid, v) \<and>
         m_storage (mem (move_ctor mf Capacity this other w) this) ! i =
           Some (next_oid w + i, v)) \<and>
      trace (move_ctor mf Capacity this other w) =
        trace w @ map Constructed [next_oid w..<next_oid w + size_sv w other] \<and>
      wf Capacity (mem (move_ctor mf Capacity this other w) this) \<and>
      size_sv (move_ctor mf Capacity this other w) other = 0 \<and>
      empty_sv (move_ctor mf Capacity this other w) other \<and>
      wf Capacity (mem (move_ctor mf Capacity this other w) other) \<and>
      ub (move_ctor mf Capacity this other w) = ub w \<and>
      (writes_in_range Capacity other ms (move_ctor mf Capacity this other w) \<longrightarrow>
         fst (mutate_all Capacity other ms (move_ctor mf Capacity this other w)) =
           fst (mutate_all Capacity other ms
                  (default_ctor Capacity other (move_ctor mf Capacity this other w))) \<and>
         (let w1 = snd (mutate_all Capacity other ms (move_ctor mf Capacity this other w));
              w2 = snd (mutate_all Capacity other ms
                     (default_ctor Capacity other (move_ctor mf Capacity this other w)))
          in same_view Capacity other w1 w2 \<and>
             size_sv w1 other = size_sv w2 other \<and> empty_sv w1 other = empty_sv w2 other \<and>
             at_if w1 other k = at_if w2 other k \<and> front_if w1 other = front_if w2 other \<and>
             back_if w1 other = back_if w2 other \<and>
             (k < size_sv w1 other \<longrightarrow> slot w1 (other, k) = slot w2 (other, k))))"
proof (intro conjI impI)
  assume a: "this \<noteq> other \<and> wf Capacity (mem w other)"
  then have ne: "this \<noteq> other" "other \<noteq> this" and wo: "wf Capacity (mem w other)" by auto
  let ?w' = "move_ctor mf Capacity this other w"
  note c = move_ctor_closed [OF ne(1) wo, of mf]
  show "size_sv ?w' this = size_sv w other"
    using ne by (simp add: size_sv_def move_ctor_frame)
  show "\<forall>i<size_sv w other. \<exists>oid v.
          m_storage (mem w other) ! i = Some (oid, v) \<and>
          m_storage (mem ?w' this) ! i = Some (next_oid w + i, v)"
    using filled_live [OF wo, of "replicate Capacity None" _ "next_oid w"] c
    by (simp add: size_sv_def)
  show "trace ?w' = trace w @ map Constructed [next_oid w..<next_oid w + size_sv w other]"
    by (simp add: c size_sv_def)
  show "wf Capacity (mem ?w' this)"
    using ne by (intro wf_filled [OF wo, of "replicate Capacity None" _ "next_oid w"])
      (simp_all add: c move_ctor_frame)
  show z: "size_sv ?w' other = 0"
    using ne by (simp add: size_sv_def move_ctor_frame)
  then show "empty_sv ?w' other" by (simp add: size_sv_def empty_sv_def)
  show wo': "wf Capacity (mem ?w' other)"
    using ne by (intro wf_spent [OF wo, of _ mf]) (simp_all add: c move_ctor_frame)
  show "ub ?w' = ub w" by (simp add: c)
  assume r: "writes_in_range Capacity other ms ?w'"
  have "same_view Capacity other ?w' (default_ctor Capacity other ?w')"
    using wo' z by (simp add: same_view_def size_sv_def elems_def wf_def)
  note s = mutate_all_same_view [OF this r]
  from s show "fst (mutate_all Capacity other ms ?w') =
          fst (mutate_all Capacity other ms (default_ctor Capacity other ?w'))"
    by simp
  from s same_view_observers [OF s [THEN conjunct2], of k]
  show "let w1 = snd (mutate_all Capacity other ms ?w');
            w2 = snd (mutate_all Capacity other ms (default_ctor Capacity other ?w'))
        in same_view Capacity other w1 w2 \<and>
           size_sv w1 other = size_sv w2 other \<and> empty_sv w1 other = empty_sv w2 other \<and>
           at_if w1 other k = at_if w2 other k \<and> front_if w1 other = front_if w2 other \<and>
           back_if w1 other = back_if w2 other \<and>
           (k < size_sv w1 other \<longrightarrow> slot w1 (other, k) = slot w2 (other, k))"
    by (simp add: Let_def)
qed

lemma moved_sample:
  "m_size (mem (move_ctor (\<lambda>v. v) 3 2 0 sample) a) = (if a = 2 then 2 else 0)"
  "m_storage (mem (move_ctor (\<lambda>v. v) 3 2 0 sample) 0) = [Some (0, 10), Some (1, 20), None]"
  "m_storage (mem (move_ctor (\<lambda>v. v) 3 2 0 sample) 2) = [Some (2, 10), Some (3, 20), None]"
proof -
  have ne: "(2::nat) \<noteq> 0" by simp
  note c = move_ctor_closed [OF ne wf_sample, of "\<lambda>v. v"]
  show "m_size (mem (move_ctor (\<lambda>v. v) 3 2 0 sample) a) = (if a = 2 then 2 else 0)"
    by (simp add: move_ctor_frame)
  show "m_storage (mem (move_ctor (\<lambda>v. v) 3 2 0 sample) 0) = [Some (0, 10), Some (1, 20), None]"
    by (subst c [THEN conjunct2, THEN conjunct1]) (simp add: spent_def upt_conv_Cons)
  show "m_storage (mem (move_ctor (\<lambda>v. v) 3 2 0 sample) 2) = [Some (2, 10), Some (3, 20), None]"
    by (subst c [THEN conjunct1]) (simp add: fill_def upt_conv_Cons numeral_3_eq_3)
qed

theorem move_construction_round_trip_witness:
  "(2::nat) \<noteq> 0 \<and> wf 3 (mem sample 0) \<and>
   size_sv (move_ctor (\<lambda>v. v) 3 2 0 sample) 2 = 2 \<and>
   m_storage (mem (move_ctor (\<lambda>v. v) 3 2 0 sample) 2) ! 0 = Some (2, 10) \<and>
   m_storage (mem (move_ctor (\<lambda>v. v) 3 2 0 sample) 2) ! 1 = Some (3, 20) \<and>
   trace (move_ctor (\<lambda>v. v) 3 2 0 sample) =
     [Constructed 0, Constructed 1, Constructed 2, Constructed 3] \<and>
   size_sv (move_ctor (\<lambda>v. v) 3 2 0 sample) 0 = 0 \<and>
   wf 3 (mem (move_ctor (\<lambda>v. v) 3 2 0 sample) 0) \<and>
   writes_in_range 3 0 [Insert (PushCopy 7), Write 0 8, PopBack, PopBack, Clear]
     (move_ctor (\<lambda>v. v) 3 2 0 sample) \<and>
   fst (mutate_all 3 0 [Insert (PushCopy 7), Write 0 8, PopBack, PopBack, Clear]
          (move_ctor (\<lambda>v. v) 3 2 0 sample)) =
   fst (mutate_all 3 0 [Insert (PushCopy 7), Write 0 8, PopBack, PopBack, Clear]
          (default_ctor 3 0 (move_ctor (\<lambda>v. v) 3 2 0 sample)))"
proof -
  let ?w' = "move_ctor (\<lambda>v. v) 3 2 0 sample"
  let ?ms = "[Insert (PushCopy 7), Write 0 8, PopBack, PopBack, Clear]"
  have h: "(2::nat) \<noteq> 0 \<and> wf 3 (mem sample 0)" by simp
  note t = move_construction_round_trip [of 2 0 3 sample "\<lambda>v. v" ?ms 0, THEN mp, OF h]
  have i: "(0::nat) < size_sv sample 0" "(1::nat) < size_sv sample 0" by (simp_all add: size_sv_def)
  note p = t [THEN conjunct2, THEN conjunct1, rule_format]
  have r: "writes_in_range 3 0 ?ms ?w'"
    by (simp add: moved_sample split_beta insert_back_eq push_back_ok)
  note q = t [THEN conjunct2, THEN conjunct2, THEN conjunct2, THEN conjunct2,
              THEN conjunct2, THEN conjunct2, THEN conjunct2, THEN conjunct2, THEN mp, OF r]
  from t p [OF i(1)] p [OF i(2)] h r q
  show ?thesis by (simp add: size_sv_def upt_conv_Cons)
qed

section \<open>Programs over several containers\<close>

lemma move_ctor_size:
  "m_size (mem (move_ctor mf Capacity this other w) a) =
     (if a = other then 0 else if a = this then m_size (mem w other) else m_size (mem w a))"
  by (simp add: move_ctor_def Let_def)

lemma copy_assign_size:
  "m_size (mem (copy_assign this other w) a) =
     (if a = this then m_size (mem w other) else m_size (mem w a))"
  by (simp add: copy_assign_def Let_def)

lemma move_assign_size:
  "m_size (mem (move_assign mf this other w) a) =
     (if this = other then m_size (mem w a)
      else if a = other then 0 else if a = this then m_size (mem w other) else m_size (mem w a))"
  by (simp add: move_assign_def Let_def)

lemma mutate_size:
  "m_size (mem (snd (mutate Capacity this m w)) a) \<le> max Capacity (m_size (mem w a)) \<and>
   (m_size (mem w a) \<le> Capacity \<longrightarrow> m_size (mem (snd (mutate Capacity this m w)) a) \<le> Capacity)"
proof (cases m)
  case (Insert x)
  then show ?thesis
    by (cases "m_size (mem w this) < Capacity")
       (auto simp: split_beta insert_back_eq push_back_ok push_back_full)
next
  case PopBack
  then show ?thesis
    by (cases "m_size (mem w this) = 0")
       (auto simp: split_beta pop_back_empty pop_back_fields)
qed (auto simp: subscript_def)

lemma step_bounded: "bounded Capacity w \<Longrightarrow> bounded Capacity (step mf Capacity x w)"
  by (cases x)
     (auto simp: bounded_def copy_ctor_frame move_ctor_size copy_assign_size move_assign_size
        dtor_def mutate_size)

lemma run_bounded: "bounded Capacity w \<Longrightarrow> bounded Capacity (run mf Capacity xs w)"
  by (induction xs arbitrary: w) (simp_all add: step_bounded)

lemma bounded_world0: "bounded Capacity (world0 Capacity)"
  by (simp add: bounded_def)

text \<open>
  C9 (capacity invariant). From a state in which the size of every container is at
  most \<open>Capacity\<close>, and so from the initial state, every program (any sequence of
  constructors, assignments, destructors, insertions, \<open>pop_back\<close>, \<open>clear\<close> and element
  writes, on any containers) leads to a state in which \<open>size() \<le> capacity()\<close> holds for
  every container; and \<open>capacity()\<close> is the template parameter \<open>Capacity\<close> in every state,
  whatever the size.
\<close>

theorem capacity_invariant:
  fixes w :: "'a world"
  shows
   "(bounded Capacity w \<longrightarrow>
       size_sv (run mf Capacity xs w) a \<le> capacity Capacity (run mf Capacity xs w) a) \<and>
    size_sv (run mf Capacity xs (world0 Capacity)) a \<le>
      capacity Capacity (run mf Capacity xs (world0 Capacity)) a \<and>
    capacity Capacity w a = Capacity \<and>
    capacity Capacity (run mf Capacity xs w) a = capacity Capacity w a"
proof -
  have "size_sv (run mf Capacity xs v) a \<le> Capacity" if "bounded Capacity v" for v :: "'a world"
    using run_bounded [OF that, of mf xs] by (simp add: bounded_def size_sv_def)
  from this this [OF bounded_world0] show ?thesis
    by (simp add: capacity_def)
qed

theorem capacity_invariant_witness:
  "bounded 3 sample \<and>
   size_sv (run (\<lambda>v. v) 3
     [Mutate 0 (Insert (PushCopy 30)), Mutate 0 (Insert (PushCopy 40)), CopyCtor 1 0] sample) 0
     \<le> capacity 3 (run (\<lambda>v. v) 3
     [Mutate 0 (Insert (PushCopy 30)), Mutate 0 (Insert (PushCopy 40)), CopyCtor 1 0] sample) 0 \<and>
   capacity 3 sample 0 = 3"
proof -
  have h: "bounded 3 sample" by (simp add: bounded_def)
  note t = capacity_invariant [of 3 sample "\<lambda>v. v"
      "[Mutate 0 (Insert (PushCopy 30)), Mutate 0 (Insert (PushCopy 40)), CopyCtor 1 0]" 0]
  from t [THEN conjunct1, THEN mp, OF h] t [THEN conjunct2] h
  show ?thesis by simp
qed

section \<open>Element lifetimes across a move construction\<close>

text \<open>
  C8 (exactly-once destruction), evaluated at \<open>move_program\<close>: two objects are
  constructed (the element of \<open>a\<close>, number 0, and the element of \<open>b\<close> move-constructed
  from it, number 1), and the only destructor call of the whole program is that of
  object 1. The destructor of object 0, the moved-from element of \<open>a\<close>, never runs: the
  move constructor sets \<open>other.size_ = 0\<close> without destroying the moved-from objects,
  where the move assignment operator calls \<open>other.clear()\<close>. The same program with the
  move done by assignment destroys both objects once.
\<close>

theorem move_ctor_skips_destructor:
  "trace (run (\<lambda>v. v) 5 move_program (world0 5)) = [Constructed 0, Constructed 1, Destroyed 1] \<and>
   count_list (trace (run (\<lambda>v. v) 5 move_program (world0 5))) (Destroyed 0) = 0 \<and>
   ub (run (\<lambda>v. v) 5 move_program (world0 5)) = False \<and>
   trace (run (\<lambda>v. v) 5
      [DefaultCtor 0, Mutate 0 (Insert (Emplace 7)), DefaultCtor 1, MoveAssign 1 0, Dtor 1, Dtor 0]
      (world0 5)) = [Constructed 0, Constructed 1, Destroyed 0, Destroyed 1]"
  by (simp add: move_program_def split_beta emplace_back_def move_ctor_def move_assign_def
        dtor_def clear_def Let_def data_def begin_sv_def ptr_add_def slot_eq
        move_construct_def placement_new_def clear_loop.simps numeral_eq_Suc)

end
